theory Spec2Isabelle
  imports Complex_Main "HOL-Library.Sublist"
begin

section \<open>Python values used by main.py\<close>

text \<open>
  A Python \<open>str\<close> is modelled as a \<open>string\<close>; a \<open>char\<close> stands for the code point of
  the same number, so the model covers text whose code points are below 256.
  Exceptions are values: \<open>HandError msg id\<close> is the class of the source, the other
  constructors are the built-in exceptions its expressions can raise.
\<close>

datatype exn = HandError string string | IndexError | ValueError | OverflowError | AttributeError

text \<open>\<open>HandError.__str__\<close>: the identifier is appended only when it is truthy.\<close>

definition hand_error_str :: "string \<Rightarrow> string \<Rightarrow> string" where
  "hand_error_str msg i = (if i \<noteq> [] then msg @ '' -> id: '' @ i else msg)"


subsection \<open>String methods\<close>

text \<open>The line boundaries of \<open>str.splitlines\<close> below code point 256.\<close>

definition is_linebreak :: "char \<Rightarrow> bool" where
  "is_linebreak c = (c \<in> set [CHR 0x0A, CHR 0x0B, CHR 0x0C, CHR 0x0D, CHR 0x1C, CHR 0x1D, CHR 0x1E, CHR 0x85])"

text \<open>\<open>str.splitlines()\<close>: \<open>cur\<close> is the line being collected; \<open>\r\n\<close> is one boundary;
  no empty last line is produced.\<close>

fun splitlines_acc :: "string \<Rightarrow> string \<Rightarrow> string list" where
  "splitlines_acc cur [] = (if cur = [] then [] else [cur])"
| "splitlines_acc cur [c] = (if is_linebreak c then [cur] else [cur @ [c]])"
| "splitlines_acc cur (c # d # cs) =
     (if c = CHR 0x0D \<and> d = CHR 0x0A then cur # splitlines_acc [] cs
      else if is_linebreak c then cur # splitlines_acc [] (d # cs)
      else splitlines_acc (cur @ [c]) (d # cs))"

definition splitlines :: "string \<Rightarrow> string list" where
  "splitlines s = splitlines_acc [] s"

text \<open>Iterating an \<open>io.StringIO\<close>: lines end at \<open>\n\<close> only, and keep it.\<close>

fun io_lines_acc :: "string \<Rightarrow> string \<Rightarrow> string list" where
  "io_lines_acc cur [] = (if cur = [] then [] else [cur])"
| "io_lines_acc cur (c # cs) =
     (if c = CHR 0x0A then (cur @ [c]) # io_lines_acc [] cs
      else io_lines_acc (cur @ [c]) cs)"

definition io_lines :: "string \<Rightarrow> string list" where
  "io_lines s = io_lines_acc [] s"

text \<open>\<open>xs[i]\<close> raises \<open>IndexError\<close> out of range.\<close>

definition py_index :: "'a list \<Rightarrow> nat \<Rightarrow> exn + 'a" where
  "py_index xs i = (if i < length xs then Inr (xs ! i) else Inl IndexError)"

text \<open>\<open>str.strip()\<close> removes leading and trailing whitespace.\<close>

definition is_space :: "char \<Rightarrow> bool" where
  "is_space c = (c \<in> set [CHR 0x20, CHR 0x09, CHR 0x0A, CHR 0x0B, CHR 0x0C, CHR 0x0D,
                            CHR 0x1C, CHR 0x1D, CHR 0x1E, CHR 0x1F, CHR 0x85, CHR 0xA0])"

definition strip :: "string \<Rightarrow> string" where
  "strip s = rev (dropWhile is_space (rev (dropWhile is_space s)))"

text \<open>\<open>s.find(sub) != -1\<close>.\<close>

fun contains :: "string \<Rightarrow> string \<Rightarrow> bool" where
  "contains sub [] = (sub = [])"
| "contains sub (c # cs) = (prefix sub (c # cs) \<or> contains sub cs)"

text \<open>
  Replacing every occurrence of a non-empty \<open>old\<close>, leftmost first and without overlap.
  This is \<open>str.replace(old, new)\<close>, and it is \<open>re.sub(old, new, s)\<close> when \<open>old\<close> is a string
  of decimal digits and \<open>new\<close> has no backslash, which is how \<open>_convert\<close> calls it.
\<close>

function replace_all :: "string \<Rightarrow> string \<Rightarrow> string \<Rightarrow> string" where
  "replace_all old new [] = []"
| "replace_all old new (c # cs) =
     (if old \<noteq> [] \<and> prefix old (c # cs)
      then new @ replace_all old new (drop (length old) (c # cs))
      else c # replace_all old new cs)"
  by pat_completeness auto
termination
  by (relation "measure (\<lambda>(old, new, s). length s)") auto

text \<open>\<open>str.isdigit()\<close>: non-empty, every character a digit. Below code point 256 the
  digits are \<open>0\<close> to \<open>9\<close> and the superscripts 1, 2 and 3.\<close>

definition is_ascii_digit :: "char \<Rightarrow> bool" where
  "is_ascii_digit c = (c \<in> set ''0123456789'')"

definition is_digit_char :: "char \<Rightarrow> bool" where
  "is_digit_char c = (is_ascii_digit c \<or> c \<in> set [CHR 0xB2, CHR 0xB3, CHR 0xB9])"

definition isdigit :: "string \<Rightarrow> bool" where
  "isdigit s = (s \<noteq> [] \<and> list_all is_digit_char s)"

text \<open>
  \<open>int(s)\<close> on the strings the source passes to it: captures of \<open>[0-9]*\<close>, or strings that
  passed \<open>isdigit\<close>. A non-empty string of decimal digits is read in base ten; the empty
  string and a string with a superscript digit raise \<open>ValueError\<close>.
\<close>

definition digit_val :: "char \<Rightarrow> nat" where
  "digit_val c = of_char c - 48"

definition py_int :: "string \<Rightarrow> exn + nat" where
  "py_int s = (if s \<noteq> [] \<and> list_all is_ascii_digit s
               then Inr (foldl (\<lambda>n c. 10 * n + digit_val c) 0 s)
               else Inl ValueError)"

subsection \<open>Regular expressions\<close>

text \<open>
  The patterns of the source are sequences of literal characters, \<open>.*\<close> and \<open>[0-9]*\<close>, the two
  stars possibly inside a capturing group. \<open>re.search\<close> tries the start positions from left
  to right and matches by backtracking, a star taking the longest run first.
\<close>

datatype cls = AnyChar | Digit

datatype atom = Lit char | Star cls | Cap cls

fun cls_match :: "cls \<Rightarrow> char \<Rightarrow> bool" where
  "cls_match AnyChar c = (c \<noteq> CHR 0x0A)"
| "cls_match Digit c = is_ascii_digit c"

fun match_here :: "atom list \<Rightarrow> string \<Rightarrow> string list option"
  and match_star :: "cls \<Rightarrow> bool \<Rightarrow> atom list \<Rightarrow> string \<Rightarrow> string \<Rightarrow> string list option"
where
  "match_here [] s = Some []"
| "match_here (Lit c # r) [] = None"
| "match_here (Lit c # r) (x # xs) = (if x = c then match_here r xs else None)"
| "match_here (Star k # r) s = match_star k False r [] s"
| "match_here (Cap k # r) s = match_star k True r [] s"
| "match_star k cap r acc [] =
     (case match_here r [] of None \<Rightarrow> None
      | Some gs \<Rightarrow> Some (if cap then acc # gs else gs))"
| "match_star k cap r acc (x # xs) =
     (case (if cls_match k x then match_star k cap r (acc @ [x]) xs else None) of
        Some gs \<Rightarrow> Some gs
      | None \<Rightarrow>
         (case match_here r (x # xs) of None \<Rightarrow> None
          | Some gs \<Rightarrow> Some (if cap then acc # gs else gs)))"

fun re_search :: "atom list \<Rightarrow> string \<Rightarrow> string list option" where
  "re_search p [] = match_here p []"
| "re_search p (x # xs) =
     (case match_here p (x # xs) of Some gs \<Rightarrow> Some gs | None \<Rightarrow> re_search p xs)"

definition lit :: "string \<Rightarrow> atom list" where
  "lit s = map Lit s"

subsection \<open>Floating point\<close>

text \<open>
  A finite non-negative IEEE double is a pair \<open>(m, e)\<close> that stands for \<open>m * 2 ^ e\<close>. In normal
  form it is \<open>(0, 0)\<close>, or \<open>2 ^ 52 \<le> m < 2 ^ 53\<close>. The source multiplies a non-negative
  \<open>int\<close> by \<open>0.00001\<close>, prints the product with \<open>str\<close> and with \<open>"{:.2f}"\<close>; these are
  modelled exactly, with integer arithmetic on the mantissa.
\<close>

type_synonym pyfloat = "nat \<times> int"

text \<open>The integer nearest to \<open>a / b\<close>, a tie going to the even one (\<open>b > 0\<close>).\<close>

definition round_half_even :: "nat \<Rightarrow> nat \<Rightarrow> nat" where
  "round_half_even a b =
     (if 2 * (a mod b) < b then a div b
      else if b < 2 * (a mod b) then a div b + 1
      else if even (a div b) then a div b else a div b + 1)"

text \<open>\<open>int.bit_length()\<close>.\<close>

function bit_length :: "nat \<Rightarrow> nat" where
  "bit_length n = (if n = 0 then 0 else Suc (bit_length (n div 2)))"
  by pat_completeness auto
termination
  by (relation "measure id") auto

declare bit_length.simps [simp del]

text \<open>\<open>floor (log2 (num / den))\<close> for positive \<open>num\<close> and \<open>den\<close>.\<close>

definition floor_log2 :: "nat \<Rightarrow> nat \<Rightarrow> int" where
  "floor_log2 num den =
     (let d = int (bit_length num) - int (bit_length den)
      in if (if 0 \<le> d then den * 2 ^ nat d \<le> num else den \<le> num * 2 ^ nat (- d))
         then d else d - 1)"

text \<open>
  Rounding to nearest, ties to even: the double nearest to the rational \<open>num / den\<close>
  (\<open>den > 0\<close>), in normal form. The exponent range is not bounded here; the callers
  check for overflow where it can happen.
\<close>

definition mantissa_at :: "nat \<Rightarrow> nat \<Rightarrow> int \<Rightarrow> nat" where
  "mantissa_at num den e =
     (if 0 \<le> e then round_half_even num (den * 2 ^ nat e)
      else round_half_even (num * 2 ^ nat (- e)) den)"

definition to_double :: "nat \<Rightarrow> nat \<Rightarrow> pyfloat" where
  "to_double num den =
     (if num = 0 then (0, 0)
      else let e = floor_log2 num den - 52; m = mantissa_at num den e
           in if m = 2 ^ 53 then (2 ^ 52, e + 1) else (m, e))"

text \<open>\<open>float(n)\<close> for an \<open>int\<close>, as done implicitly by \<open>n * 0.00001\<close>: correctly rounded,
  \<open>OverflowError\<close> when the result would not be finite.\<close>

definition int_to_float :: "nat \<Rightarrow> exn + pyfloat" where
  "int_to_float n =
     (let x = to_double n 1 in if 971 < snd x then Inl OverflowError else Inr x)"

text \<open>The product of two doubles. Its factors in the source are an integer and
  \<open>0.00001\<close>, so the product neither overflows nor falls below the normal range.\<close>

definition float_mul :: "pyfloat \<Rightarrow> pyfloat \<Rightarrow> pyfloat" where
  "float_mul x y =
     (let m = fst x * fst y; e = snd x + snd y
      in if 0 \<le> e then to_double (m * 2 ^ nat e) 1 else to_double m (2 ^ nat (- e)))"

text \<open>The literal \<open>0.00001\<close>, that is \<open>0x1.4f8b588e368f1p-17\<close>.\<close>

definition c_00001 :: pyfloat where
  "c_00001 = (5902958103587057, - 69)"

text \<open>\<open>n * 0.00001\<close> for an \<open>int\<close> \<open>n\<close>.\<close>

definition times_00001 :: "nat \<Rightarrow> exn + pyfloat" where
  "times_00001 n =
     (case int_to_float n of Inl e \<Rightarrow> Inl e | Inr x \<Rightarrow> Inr (float_mul x c_00001))"

text \<open>\<open>str(n)\<close> for a non-negative \<open>int\<close>.\<close>

definition digit_char :: "nat \<Rightarrow> char" where
  "digit_char d = ''0123456789'' ! d"

function str_nat :: "nat \<Rightarrow> string" where
  "str_nat n = (if n < 10 then [digit_char n] else str_nat (n div 10) @ [digit_char (n mod 10)])"
  by pat_completeness auto
termination
  by (relation "measure id") auto

declare str_nat.simps [simp del]

text \<open>
  \<open>"{:.2f}".format(x)\<close>: the exact value of \<open>x\<close> rounded to hundredths, ties to even;
  \<open>cents x\<close> is that number of hundredths.
\<close>

definition cents :: "pyfloat \<Rightarrow> nat" where
  "cents x =
     (if 0 \<le> snd x then 100 * fst x * 2 ^ nat (snd x)
      else round_half_even (100 * fst x) (2 ^ nat (- snd x)))"

definition two_decimals :: "nat \<Rightarrow> string" where
  "two_decimals n =
     str_nat (n div 100) @ ''.'' @ [digit_char (n mod 100 div 10), digit_char (n mod 10)]"

definition format_2f :: "pyfloat \<Rightarrow> string" where
  "format_2f x = two_decimals (cents x)"

text \<open>\<open>"${:.2f}".format(amount).replace('.00', '')\<close>.\<close>

definition money :: "pyfloat \<Rightarrow> string" where
  "money amount = replace_all ''.00'' [] (''$'' @ format_2f amount)"

text \<open>
  \<open>str(x)\<close> for a float is \<open>repr(x)\<close>: the shortest decimal digit string that reads back as
  \<open>x\<close>, the nearest to \<open>x\<close> among the shortest, laid out in fixed notation when the
  decimal point position \<open>decpt\<close> satisfies \<open>-4 < decpt \<le> 16\<close> and in exponent notation
  otherwise.
\<close>

text \<open>The value of a float as a fraction.\<close>

definition float_frac :: "pyfloat \<Rightarrow> nat \<times> nat" where
  "float_frac x =
     (if 0 \<le> snd x then (fst x * 2 ^ nat (snd x), 1) else (fst x, 2 ^ nat (- snd x)))"

text \<open>The fraction \<open>(a, b)\<close> divided by \<open>10 ^ s\<close>.\<close>

definition scale10 :: "nat \<times> nat \<Rightarrow> int \<Rightarrow> nat \<times> nat" where
  "scale10 v s =
     (if 0 \<le> s then (fst v, snd v * 10 ^ nat s) else (fst v * 10 ^ nat (- s), snd v))"

text \<open>The least \<open>k\<close> from \<open>k0\<close> on with \<open>den \<le> num * 10 ^ k\<close>.\<close>

function scale_up :: "nat \<Rightarrow> nat \<Rightarrow> nat \<Rightarrow> nat" where
  "scale_up num den k =
     (if num = 0 \<or> den \<le> num * 10 ^ k then k else scale_up num den (Suc k))"
  by pat_completeness auto
termination
proof (relation "measure (\<lambda>(num, den, k). den - num * 10 ^ k)")
  show "wf (measure (\<lambda>(num, den, k). den - num * 10 ^ k))"
    by simp
next
  fix num den k :: nat
  assume a: "\<not> (num = 0 \<or> den \<le> num * 10 ^ k)"
  then have "num * 10 ^ k < num * 10 ^ Suc k" and "num * 10 ^ k < den"
    by simp_all
  then have "den - num * 10 ^ Suc k < den - num * 10 ^ k"
    by (rule diff_less_mono2)
  then show "((num, den, Suc k), (num, den, k)) \<in> measure (\<lambda>(num, den, k). den - num * 10 ^ k)"
    by simp
qed

declare scale_up.simps [simp del]

text \<open>The \<open>decpt\<close> of a positive fraction: \<open>10 ^ (decpt - 1) \<le> num / den < 10 ^ decpt\<close>.\<close>

definition decpt_of :: "nat \<times> nat \<Rightarrow> int" where
  "decpt_of v =
     (if snd v \<le> fst v then int (length (str_nat (fst v div snd v)))
      else 1 - int (scale_up (fst v) (snd v) 1))"

text \<open>Does the decimal \<open>d * 10 ^ s\<close> read back as \<open>x\<close>?\<close>

definition reads_back :: "pyfloat \<Rightarrow> nat \<Rightarrow> int \<Rightarrow> bool" where
  "reads_back x d s =
     ((if 0 \<le> s then to_double (d * 10 ^ nat s) 1 else to_double d (10 ^ nat (- s))) = x)"

text \<open>
  The candidate with \<open>n\<close> digits: the neighbours of \<open>x\<close> among the multiples of
  \<open>10 ^ s\<close>, \<open>s = decpt - n\<close>, are \<open>lo\<close> and \<open>lo + 1\<close>; of those that read back as \<open>x\<close>
  the nearer is taken (the even one on a tie).
\<close>

definition candidate :: "pyfloat \<Rightarrow> int \<Rightarrow> (nat \<times> int) option" where
  "candidate x s =
     (let ab = scale10 (float_frac x) s;
          lo = fst ab div snd ab;
          r = fst ab mod snd ab;
          lo_ok = reads_back x lo s;
          hi_ok = reads_back x (lo + 1) s;
          lo_nearer = (2 * r < snd ab \<or> (2 * r = snd ab \<and> even lo))
      in if lo_ok \<and> (lo_nearer \<or> \<not> hi_ok) then Some (lo, s)
         else if hi_ok then Some (lo + 1, s)
         else None)"

fun shortest :: "pyfloat \<Rightarrow> int \<Rightarrow> nat list \<Rightarrow> (nat \<times> int) option" where
  "shortest x p [] = None"
| "shortest x p (n # ns) =
     (case candidate x (p - int n) of Some c \<Rightarrow> Some c | None \<Rightarrow> shortest x p ns)"

definition strip_zeros :: "string \<Rightarrow> string" where
  "strip_zeros ds = rev (dropWhile (\<lambda>c. c = CHR ''0'') (rev ds))"

text \<open>The layout of \<open>repr\<close>: \<open>ds\<close> are the digits, the value is \<open>0.ds * 10 ^ decpt\<close>.\<close>

definition exp_digits :: "nat \<Rightarrow> string" where
  "exp_digits k = (if k < 10 then ''0'' @ str_nat k else str_nat k)"

definition repr_layout :: "string \<Rightarrow> int \<Rightarrow> string" where
  "repr_layout ds decpt =
     (if decpt \<le> - 4 \<or> 16 < decpt
      then [hd ds] @ (if tl ds = [] then [] else ''.'' @ tl ds) @ ''e''
           @ (if decpt - 1 < 0 then ''-'' @ exp_digits (nat (1 - decpt))
              else ''+'' @ exp_digits (nat (decpt - 1)))
      else if decpt \<le> 0 then ''0.'' @ replicate (nat (- decpt)) (CHR ''0'') @ ds
      else if nat decpt < length ds then take (nat decpt) ds @ ''.'' @ drop (nat decpt) ds
      else ds @ replicate (nat decpt - length ds) (CHR ''0'') @ ''.0'')"

definition float_str :: "pyfloat \<Rightarrow> string" where
  "float_str x =
     (if fst x = 0 then ''0.0''
      else let p = decpt_of (float_frac x)
           in case shortest x p [1..<18] of
                Some (d, s) \<Rightarrow>
                  repr_layout (strip_zeros (str_nat d)) (int (length (str_nat d)) + s)
              | None \<Rightarrow> [])"

section \<open>HandHistory: the segmenter\<close>

text \<open>
  The open file is the list of the strings that successive \<open>readline()\<close> calls return
  before the end of the file; at the end \<open>readline()\<close> returns the empty string.
\<close>

record history =
  lines :: "string list"
  hands :: nat

text \<open>The \<open>while True\<close> loop of \<open>read_hand\<close>; the result is the returned value and the lines
  left unread.\<close>

fun read_hand_loop :: "string \<Rightarrow> string list \<Rightarrow> string option \<times> string list" where
  "read_hand_loop text [] = (None, [])"
| "read_hand_loop text (line # rest) =
     (if line = [] then (None, rest)
      else if line \<noteq> ''\<newline>'' \<and> line \<noteq> [CHR 0x0D, CHR 0x0A] then read_hand_loop (text @ line) rest
      else if text \<noteq> [] then (Some text, rest)
      else read_hand_loop text rest)"

definition read_hand :: "history \<Rightarrow> string option \<times> history" where
  "read_hand h =
     (case read_hand_loop [] (lines h) of
        (None, rest) \<Rightarrow> (None, h\<lparr>lines := rest\<rparr>)
      | (Some text, rest) \<Rightarrow> (Some text, h\<lparr>lines := rest, hands := hands h + 1\<rparr>))"

section \<open>Hand and PokerStarsHand\<close>

datatype network = UNKNOWN | POKERSTARS

text \<open>The attributes of a hand. Python starts them as \<open>None\<close>; each is read only after
  the parser has set it, so the initial value here is the empty string.\<close>

record hand =
  "text" :: string
  hand_id :: string
  play_money :: bool
  table_name :: string
  table_size :: string
  btn :: string
  sb :: string
  bb :: string
  game_type :: string
  date_time_stamp :: string

definition new_hand :: "string \<Rightarrow> hand" where
  "new_hand t = \<lparr>text = t, hand_id = [], play_money = False, table_name = [], table_size = [],
     btn = [], sb = [], bb = [], game_type = [], date_time_stamp = []\<rparr>"

text \<open>\<open>Hand.network\<close> with \<open>_parse_network\<close>.\<close>

definition parse_network :: "string \<Rightarrow> exn + network" where
  "parse_network t =
     (case py_index (splitlines t) 0 of
        Inl e \<Rightarrow> Inl e
      | Inr line \<Rightarrow>
          if contains ''PokerStars'' line then Inr POKERSTARS
          else Inl (HandError (''Unknown network: '' @ line) []))"

subsection \<open>The header patterns\<close>

definition quote :: char where
  "quote = CHR 0x27"

text \<open>\<open>Hand #([0-9]*):\<close>\<close>

definition id_rx :: "atom list" where
  "id_rx = lit ''Hand #'' @ [Cap Digit] @ lit '':''"

text \<open>\<open>Table '(.*)' (.*) \((.*)\) Seat #([0-9]*) is the button\<close>\<close>

definition table_rx :: "atom list" where
  "table_rx = lit ''Table '' @ [Lit quote, Cap AnyChar, Lit quote] @ lit '' '' @ [Cap AnyChar]
     @ lit '' ('' @ [Cap AnyChar] @ lit '') Seat #'' @ [Cap Digit] @ lit '' is the button''"

text \<open>\<open>Hold'em (.*) \(([0-9]*)/([0-9]*).*\) - (.*)\<close>\<close>

definition stakes_rx :: "atom list" where
  "stakes_rx = lit ''Hold'em '' @ [Cap AnyChar] @ lit '' ('' @ [Cap Digit] @ lit ''/''
     @ [Cap Digit, Star AnyChar] @ lit '') - '' @ [Cap AnyChar]"

subsection \<open>The header parser\<close>

definition parse_id :: "hand \<Rightarrow> exn + hand" where
  "parse_id h =
     (case py_index (splitlines (text h)) 0 of
        Inl e \<Rightarrow> Inl e
      | Inr line \<Rightarrow>
          (case re_search id_rx line of
             Some gs \<Rightarrow> Inr (h\<lparr>hand_id := gs ! 0\<rparr>)
           | None \<Rightarrow> Inl (HandError (''Unable to parse hand id: '' @ line) [])))"

definition parse_table_header :: "hand \<Rightarrow> exn + hand" where
  "parse_table_header h =
     (case py_index (splitlines (text h)) 1 of
        Inl e \<Rightarrow> Inl e
      | Inr line \<Rightarrow>
          (case re_search table_rx line of
             Some gs \<Rightarrow>
               if gs ! 2 = ''Play Money''
               then Inr (h\<lparr>play_money := True, table_name := gs ! 0, table_size := gs ! 1,
                           btn := gs ! 3\<rparr>)
               else Inl (HandError (''Unknown play money table header: '' @ line) (hand_id h))
           | None \<Rightarrow> Inl (HandError (''Unable to parse table header: '' @ line) (hand_id h))))"

text \<open>\<open>str(int(g) * 0.00001)\<close>\<close>

definition stake_str :: "string \<Rightarrow> exn + string" where
  "stake_str g =
     (case py_int g of
        Inl e \<Rightarrow> Inl e
      | Inr n \<Rightarrow> (case times_00001 n of Inl e \<Rightarrow> Inl e | Inr x \<Rightarrow> Inr (float_str x)))"

definition parse_hand_header :: "hand \<Rightarrow> exn + hand" where
  "parse_hand_header h =
     (case py_index (splitlines (text h)) 0 of
        Inl e \<Rightarrow> Inl e
      | Inr line \<Rightarrow>
          (case re_search stakes_rx line of
             Some gs \<Rightarrow>
               (case stake_str (gs ! 1) of
                  Inl e \<Rightarrow> Inl e
                | Inr s \<Rightarrow>
                    (case stake_str (gs ! 2) of
                       Inl e \<Rightarrow> Inl e
                     | Inr b \<Rightarrow>
                         if gs ! 0 = ''No Limit'' \<or> gs ! 0 = ''Pot Limit'' \<or> gs ! 0 = ''Fixed Limit''
                         then Inr (h\<lparr>sb := s, bb := b, game_type := gs ! 0,
                                     date_time_stamp := gs ! 3\<rparr>)
                         else Inl (HandError (''Game type not recognised: '' @ line) (hand_id h))))
           | None \<Rightarrow> Inl (HandError (''Unable to parse blind amounts: '' @ line) (hand_id h))))"

definition parse :: "hand \<Rightarrow> exn + hand" where
  "parse h =
     (case parse_id h of
        Inl e \<Rightarrow> Inl e
      | Inr h1 \<Rightarrow>
          (case parse_table_header h1 of
             Inl e \<Rightarrow> Inl e
           | Inr h2 \<Rightarrow> parse_hand_header h2))"

subsection \<open>The amount converter\<close>

text \<open>The loop of \<open>_convert\<close> over the groups of a match: a group that \<open>isdigit\<close> accepts is
  replaced wherever it occurs in the line as it stands.\<close>

fun convert_groups :: "string list \<Rightarrow> string \<Rightarrow> exn + string" where
  "convert_groups [] line = Inr line"
| "convert_groups (g # gs) line =
     (if isdigit g
      then (case py_int g of
              Inl e \<Rightarrow> Inl e
            | Inr n \<Rightarrow>
                (case times_00001 n of
                   Inl e \<Rightarrow> Inl e
                 | Inr amount \<Rightarrow> convert_groups gs (replace_all g (money amount) line)))
      else convert_groups gs line)"

definition convert :: "atom list \<Rightarrow> string \<Rightarrow> exn + string" where
  "convert regex line =
     (case re_search regex line of
        Some gs \<Rightarrow> convert_groups gs line
      | None \<Rightarrow> Inr line)"

text \<open>The eleven patterns of \<open>print\<close>, in its order.\<close>

definition rules :: "atom list list" where
  "rules =
    [lit ''('' @ [Cap Digit] @ lit '' in chips)'',
     lit ''posts '' @ [Cap AnyChar] @ lit '' blind '' @ [Cap Digit],
     lit '': bets '' @ [Cap Digit],
     lit '': calls '' @ [Cap Digit],
     lit '': raises '' @ [Cap Digit] @ lit '' to '' @ [Cap Digit],
     lit '' collected '' @ [Cap Digit] @ lit '' from pot'',
     lit '' collected ('' @ [Cap Digit] @ lit '')'',
     lit ''Total pot '' @ [Cap Digit] @ lit '' | Rake '' @ [Cap Digit],
     lit ''and won ('' @ [Cap Digit] @ lit '') with'',
     lit ''Uncalled bet ('' @ [Cap Digit] @ lit '') returned to'',
     lit ''posts small & big blinds '' @ [Cap Digit]]"

fun convert_rules :: "atom list list \<Rightarrow> string \<Rightarrow> exn + string" where
  "convert_rules [] line = Inr line"
| "convert_rules (r # rs) line =
     (case convert r line of Inl e \<Rightarrow> Inl e | Inr line' \<Rightarrow> convert_rules rs line')"

definition convert_line :: "string \<Rightarrow> exn + string" where
  "convert_line line = convert_rules rules line"

subsection \<open>The record formatter\<close>

text \<open>
  Printing returns what was written to standard output and the exception that stopped it,
  if any. \<open>print(x)\<close> writes \<open>x\<close> and a line feed.
\<close>

definition header_line1 :: "hand \<Rightarrow> string" where
  "header_line1 h = ''PokerStars Hand #'' @ hand_id h @ '':  Hold'em '' @ game_type h @ '' ($''
     @ sb h @ ''/$'' @ bb h @ '' USD) - '' @ date_time_stamp h"

definition header_line2 :: "hand \<Rightarrow> string" where
  "header_line2 h = ''Table '' @ [quote] @ table_name h @ [quote] @ '' '' @ table_size h
     @ '' Seat #'' @ btn h @ '' is the button''"

fun print_body :: "string list \<Rightarrow> string \<times> exn option" where
  "print_body [] = (''\<newline>\<newline>\<newline>'', None)"
| "print_body (line # rest) =
     (case convert_line line of
        Inl e \<Rightarrow> ([], Some e)
      | Inr line' \<Rightarrow>
          (case print_body rest of (out, r) \<Rightarrow> (strip line' @ ''\<newline>'' @ out, r)))"

definition print_hand :: "hand \<Rightarrow> string \<times> exn option" where
  "print_hand h =
     (case print_body (drop 2 (io_lines (text h))) of
        (out, r) \<Rightarrow> (header_line1 h @ ''\<newline>'' @ header_line2 h @ ''\<newline>'' @ out, r))"

section \<open>The driver\<close>

record run =
  out :: string
  err :: string
  errors :: nat

datatype outcome = Finished | Raised exn

text \<open>The body of the \<open>try\<close> in the loop, after \<open>read_hand\<close>: \<open>hand.network()\<close>, then
  \<open>hand.parse()\<close> and \<open>hand.print()\<close>. A hand whose network is not PokerStars would keep
  the class \<open>Hand\<close>, which has no \<open>parse\<close>; \<open>network()\<close> raises before that.\<close>

definition parse_print :: "hand \<Rightarrow> string \<times> exn option" where
  "parse_print h0 =
     (case parse h0 of
        Inl e \<Rightarrow> ([], Some e)
      | Inr h \<Rightarrow> print_hand h)"

definition run_hand :: "string \<Rightarrow> string \<times> exn option" where
  "run_hand t =
     (case parse_network t of
        Inl e \<Rightarrow> ([], Some e)
      | Inr n \<Rightarrow>
          if n = POKERSTARS then parse_print (new_hand t)
          else ([], Some AttributeError))"

function main_loop :: "history \<Rightarrow> run \<Rightarrow> outcome \<times> history \<times> run" where
  "main_loop h st =
     (case read_hand h of
        (None, h') \<Rightarrow> (Finished, h', st)
      | (Some t, h') \<Rightarrow>
          (case run_hand t of
             (printed, None) \<Rightarrow> main_loop h' (st\<lparr>out := out st @ printed\<rparr>)
           | (printed, Some (HandError msg i)) \<Rightarrow>
               main_loop h' (st\<lparr>out := out st @ printed, errors := errors st + 1,
                                 err := err st @ hand_error_str msg i @ ''\<newline>''\<rparr>)
           | (printed, Some e) \<Rightarrow> (Raised e, h', st\<lparr>out := out st @ printed\<rparr>)))"
  by pat_completeness auto
termination
proof -
  have shorter: "length rest < length ls" if "read_hand_loop t ls = (Some b, rest)"
    for t ls b rest
    using that by (induction t ls rule: read_hand_loop.induct) (auto split: if_splits)
  show ?thesis
    by (relation "measure (\<lambda>(h, st). length (lines h))")
       (auto simp: read_hand_def split: prod.splits option.splits dest: shorter)
qed

declare main_loop.simps [simp del]

text \<open>\<open>main\<close> on an opened file: the loop, then the count line on standard error. An
  exception other than \<open>HandError\<close> leaves the loop and \<open>main\<close>, and nothing more is written.\<close>

definition main :: "string list \<Rightarrow> outcome \<times> run" where
  "main ls =
     (case main_loop \<lparr>lines = ls, hands = 0\<rparr> \<lparr>out = [], err = [], errors = 0\<rparr> of
        (Finished, h, st) \<Rightarrow>
          (Finished, st\<lparr>err := err st @ str_nat (hands h) @ '' hands, '' @ str_nat (errors st)
                                @ '' errors\<newline>''\<rparr>)
      | (Raised e, h, st) \<Rightarrow> (Raised e, st))"

section \<open>Inputs of the examples\<close>

text \<open>The block of the end-to-end example: two header lines and one body line.\<close>

definition example_block :: string where
  "example_block = ''Hand #100:  Hold'em No Limit (100/200 USD) - 2024-01-01 00:00:00 UTC\<newline>Table 'Alpha' 6-max (Play Money) Seat #3 is the button\<newline>Seat 1: posts small blind 100\<newline>''"

text \<open>A parsed hand with one body line.\<close>

definition example_hand :: hand where
  "example_hand = \<lparr>text = ''PokerStars Hand #100:  Hold'em No Limit (100/200 USD) - T\<newline>Table 'Alpha' 6-max (Play Money) Seat #3 is the button\<newline>Seat 1: posts small blind 100\<newline>'',
     hand_id = ''100'', play_money = True, table_name = ''Alpha'', table_size = ''6-max'',
     btn = ''3'', sb = ''0.001'', bb = ''0.002'', game_type = ''No Limit'',
     date_time_stamp = ''T''\<rparr>"

text \<open>What \<open>parse\<close> makes of the example block.\<close>

definition example_parsed :: hand where
  "example_parsed = \<lparr>text = example_block, hand_id = ''100'', play_money = True,
     table_name = ''Alpha'', table_size = ''6-max'', btn = ''3'', sb = ''0.001'', bb = ''0.002'',
     game_type = ''No Limit'', date_time_stamp = ''2024-01-01 00:00:00 UTC''\<rparr>"

section \<open>Notions used in the statements\<close>

text \<open>\<open>join sep ps\<close> is Python's \<open>sep.join(ps)\<close>: the pieces with \<open>sep\<close> between them.\<close>

fun join :: "string \<Rightarrow> string list \<Rightarrow> string" where
  "join sep [] = []"
| "join sep [p] = p"
| "join sep (p # q # ps) = p @ sep @ join sep (q # ps)"

text \<open>
  The pieces between the occurrences of \<open>old\<close> that a scan from the left finds: no piece,
  continued by all but the last character of the \<open>old\<close> after it, contains \<open>old\<close>, and the
  last piece does not contain it.
\<close>

fun pieces_free :: "string \<Rightarrow> string list \<Rightarrow> bool" where
  "pieces_free old [] = True"
| "pieces_free old [p] = (\<not> contains old p)"
| "pieces_free old (p # q # ps) = (\<not> contains old (p @ butlast old) \<and> pieces_free old (q # ps))"

text \<open>
  A rule is settled on a line when \<open>re.search\<close> finds no match of it there, or a match none of
  whose captures \<open>isdigit\<close> accepts: \<open>_convert\<close> then has nothing to substitute. A line is
  settled when every rule of the list is.
\<close>

definition settled_rule :: "atom list \<Rightarrow> string \<Rightarrow> bool" where
  "settled_rule r line =
     (case re_search r line of None \<Rightarrow> True | Some gs \<Rightarrow> \<not> list_ex isdigit gs)"

definition settled :: "string \<Rightarrow> bool" where
  "settled line = list_all (\<lambda>r. settled_rule r line) rules"

text \<open>The real number that a float stands for.\<close>

definition float_val :: "pyfloat \<Rightarrow> real" where
  "float_val x = real (fst x) * 2 powi (snd x)"

section \<open>Evaluation\<close>

text \<open>The defining equations that the simplifier needs to run the model on a given input.\<close>

lemma replicate_unfold: "replicate n c = (if n = 0 then [] else c # replicate (n - 1) c)"
  by (cases n) simp_all

lemmas string_eval = splitlines_def io_lines_def py_index_def is_linebreak_def is_space_def
  strip_def is_ascii_digit_def is_digit_char_def isdigit_def py_int_def digit_val_def lit_def
  quote_def

lemmas float_eval = times_00001_def int_to_float_def to_double_def floor_log2_def
  bit_length.simps mantissa_at_def round_half_even_def float_mul_def c_00001_def Let_def

lemmas money_eval = money_def format_2f_def cents_def two_decimals_def round_half_even_def
  str_nat.simps digit_char_def

lemmas repr_eval = float_str_def decpt_of_def float_frac_def scale_up.simps candidate_def
  reads_back_def scale10_def str_nat.simps digit_char_def strip_zeros_def repr_layout_def
  exp_digits_def upt_rec replicate_unfold

lemmas hand_eval = new_hand_def parse_network_def id_rx_def table_rx_def stakes_rx_def
  parse_id_def parse_table_header_def stake_str_def parse_hand_header_def parse_def
  convert_def rules_def convert_line_def header_line1_def header_line2_def print_hand_def
  parse_print_def run_hand_def

lemmas main_eval = read_hand_def main_loop.simps main_def hand_error_str_def

lemma times_100: "times_00001 100 = Inr (4611686018427388, - 62)"
  by (simp add: float_eval)

lemma times_200: "times_00001 200 = Inr (4611686018427388, - 61)"
  by (simp add: float_eval)

lemma float_str_100: "float_str (4611686018427388, - 62) = ''0.001''"
  by (simp add: repr_eval float_eval)

lemma float_str_200: "float_str (4611686018427388, - 61) = ''0.002''"
  by (simp add: repr_eval float_eval)

lemma money_100: "money (4611686018427388, - 62) = ''$0''"
  by (simp add: money_eval)

section \<open>The end-to-end example\<close>

lemma example_parse_print:
  "parse_print (new_hand example_block) =
     (''PokerStars Hand #100:  Hold'em No Limit ($0.001/$0.002 USD) - 2024-01-01 00:00:00 UTC\<newline>Table 'Alpha' 6-max Seat #3 is the button\<newline>Seat 1: posts small blind $0\<newline>\<newline>\<newline>\<newline>'', None)"
  unfolding example_block_def
  by (simp add: hand_eval string_eval times_100 times_200 float_str_100 float_str_200 money_100)

text \<open>
  C1, as stated, fails: \<open>parse\<close> and \<open>print\<close> on the example block succeed, and the third
  line written is not \<open>Seat 1: posts small blind $0.001\<close>.
\<close>

theorem example_body_line_counterexample:
  "snd (parse_print (new_hand example_block)) = None \<and>
   splitlines (fst (parse_print (new_hand example_block))) ! 2 \<noteq> ''Seat 1: posts small blind $0.001''"
  by (simp add: example_parse_print string_eval)

text \<open>
  C1, amended: for the example block \<open>parse\<close> and \<open>print\<close> write the header with the stakes
  \<open>$0.001/$0.002\<close>, the table line, and the body line \<open>Seat 1: posts small blind $0\<close>:
  100 chips are 0.001, which \<open>"{:.2f}"\<close> prints as \<open>0.00\<close> and the \<open>replace\<close> shortens to
  \<open>0\<close>. Three empty lines follow.
\<close>

theorem example_output:
  "snd (parse_print (new_hand example_block)) = None \<and>
   splitlines (fst (parse_print (new_hand example_block))) =
     [''PokerStars Hand #100:  Hold'em No Limit ($0.001/$0.002 USD) - 2024-01-01 00:00:00 UTC'',
      ''Table 'Alpha' 6-max Seat #3 is the button'',
      ''Seat 1: posts small blind $0'', [], [], []]"
  by (simp add: example_parse_print string_eval)

text \<open>The driver checks the network first: the example block has no \<open>PokerStars\<close> in its
  first line, so \<open>main\<close> reports it and prints nothing for it.\<close>

lemma example_block_unknown_network:
  "run_hand example_block =
     ([], Some (HandError (''Unknown network: Hand #100:  Hold'em No Limit (100/200 USD) - 2024-01-01 00:00:00 UTC'') []))"
  unfolding example_block_def by (simp add: hand_eval string_eval)

section \<open>Errors that are not HandError\<close>

text \<open>
  C3 says that every failure on one block is caught in the loop, reported on one line and
  counted, and that the run goes on. The loop catches \<open>HandError\<close> only. A PokerStars block
  of one line makes \<open>splitlines()[1]\<close> raise \<open>IndexError\<close>: the run ends there, nothing is
  written to standard error, no error is counted, and the block that follows is not read.
\<close>

theorem short_block_stops_run:
  "main [''PokerStars Hand #1:\<newline>'', ''\<newline>'',
         ''PokerStars Hand #2:\<newline>'', ''x\<newline>'', ''\<newline>''] =
     (Raised IndexError, \<lparr>out = [], err = [], errors = 0\<rparr>)"
  by (simp add: main_eval hand_eval string_eval)

section \<open>The segmenter at the end of the stream\<close>

lemma read_hand_loop_no_blank:
  "\<forall>l \<in> set ls. l \<noteq> ''\<newline>'' \<and> l \<noteq> [CHR 0x0D, CHR 0x0A] \<Longrightarrow> fst (read_hand_loop t ls) = None"
  by (induction ls arbitrary: t) auto

text \<open>
  C6, as stated, fails: a stream that ends after two content lines, with no blank line,
  yields end-of-stream, and the block is not counted.
\<close>

theorem read_hand_unterminated_counterexample:
  "read_hand \<lparr>lines = [''PokerStars Hand #1: x\<newline>'', ''Table y\<newline>''], hands = 0\<rparr> =
     (None, \<lparr>lines = [], hands = 0\<rparr>)"
  by (simp add: read_hand_def)

text \<open>
  C6, amended: when no blank line (\<open>\n\<close> or \<open>\r\n\<close>) is left in the stream, \<open>read_hand\<close> returns
  \<open>None\<close>, with or without accumulated content, and the count of hands is unchanged. A final
  block without a blank line after it is dropped.
\<close>

theorem read_hand_end_of_stream:
  assumes "\<forall>l \<in> set (lines h). l \<noteq> ''\<newline>'' \<and> l \<noteq> [CHR 0x0D, CHR 0x0A]"
  shows "fst (read_hand h) = None \<and> hands (snd (read_hand h)) = hands h"
proof -
  obtain r rest where eq: "read_hand_loop [] (lines h) = (r, rest)"
    by (cases "read_hand_loop [] (lines h)")
  from read_hand_loop_no_blank [OF assms, of "[]"] eq have "r = None"
    by simp
  with eq show ?thesis
    by (simp add: read_hand_def)
qed

text \<open>C6, amended, at a stream of two content lines and three hands counted so far.\<close>

theorem read_hand_end_of_stream_witness:
  "fst (read_hand \<lparr>lines = [''abc\<newline>'', ''def''], hands = 3\<rparr>) = None
   \<and> hands (snd (read_hand \<lparr>lines = [''abc\<newline>'', ''def''], hands = 3\<rparr>)) = 3"
proof -
  have h: "\<forall>l \<in> set (lines \<lparr>lines = [''abc\<newline>'', ''def''], hands = 3\<rparr>). l \<noteq> ''\<newline>'' \<and> l \<noteq> [CHR 0x0D, CHR 0x0A]"
    by simp
  have "hands \<lparr>lines = [''abc\<newline>'', ''def''], hands = 3\<rparr> = 3"
    by simp
  with read_hand_end_of_stream [OF h] show ?thesis
    by (rule_tac conjI) (erule conjunct1, erule conjunct2 [THEN trans])
qed

section \<open>The end of a printed record\<close>

lemma print_body_layout:
  "print_body ls = (printed, None) \<Longrightarrow>
   \<exists>cs. map convert_line ls = map Inr cs \<and>
        printed = concat (map (\<lambda>l. strip l @ ''\<newline>'') cs) @ ''\<newline>\<newline>\<newline>''"
proof (induction ls arbitrary: printed)
  case Nil
  then show ?case by simp
next
  case (Cons l ls)
  from Cons.prems obtain l' rest where l': "convert_line l = Inr l'"
    and rest: "print_body ls = (rest, None)" and p: "printed = strip l' @ ''\<newline>'' @ rest"
    by (auto split: sum.splits prod.splits)
  from Cons.IH [OF rest] obtain cs where "map convert_line ls = map Inr cs"
    and "rest = concat (map (\<lambda>l. strip l @ ''\<newline>'') cs) @ ''\<newline>\<newline>\<newline>''"
    by blast
  with l' p have "map convert_line (l # ls) = map Inr (l' # cs) \<and>
        printed = concat (map (\<lambda>l. strip l @ ''\<newline>'') (l' # cs)) @ ''\<newline>\<newline>\<newline>''"
    by simp
  then show ?case by blast
qed

text \<open>
  C9, as stated, fails: between two records of a run there are four line breaks, that is
  three empty lines, not one.
\<close>

theorem record_separator_counterexample:
  "main [''PokerStars Hand #1:  Hold'em No Limit (100/200 USD) - T\<newline>'',
         ''Table 'A' 6-max (Play Money) Seat #3 is the button\<newline>'', ''\<newline>'',
         ''PokerStars Hand #2:  Hold'em No Limit (100/200 USD) - U\<newline>'',
         ''Table 'B' 6-max (Play Money) Seat #3 is the button\<newline>'', ''\<newline>''] =
     (Finished,
      \<lparr>out = ''PokerStars Hand #1:  Hold'em No Limit ($0.001/$0.002 USD) - T\<newline>Table 'A' 6-max Seat #3 is the button\<newline>\<newline>\<newline>\<newline>PokerStars Hand #2:  Hold'em No Limit ($0.001/$0.002 USD) - U\<newline>Table 'B' 6-max Seat #3 is the button\<newline>\<newline>\<newline>\<newline>'',
       err = ''2 hands, 0 errors\<newline>'', errors = 0\<rparr>)"
  by (simp add: main_eval hand_eval string_eval times_100 times_200 float_str_100 float_str_200
      str_nat.simps digit_char_def)

text \<open>
  C9, amended: a record that \<open>print\<close> completes is its two header lines and its converted,
  stripped body lines, each followed by one line break, and then three more line breaks
  (\<open>print('\n\n')\<close> writes the two of its argument and its own): three empty lines end
  every record.
\<close>

theorem print_hand_terminator:
  assumes "print_hand h = (printed, None)"
  shows "\<exists>cs. map convert_line (drop 2 (io_lines (text h))) = map Inr cs \<and>
           printed = header_line1 h @ ''\<newline>'' @ header_line2 h @ ''\<newline>''
             @ concat (map (\<lambda>l. strip l @ ''\<newline>'') cs) @ ''\<newline>\<newline>\<newline>''"
proof -
  from assms obtain body where b: "print_body (drop 2 (io_lines (text h))) = (body, None)"
    and p: "printed = header_line1 h @ ''\<newline>'' @ header_line2 h @ ''\<newline>'' @ body"
    by (auto simp: print_hand_def split: prod.splits)
  from print_body_layout [OF b] p show ?thesis
    by auto
qed

text \<open>C9, amended, at a parsed hand with one body line.\<close>

theorem print_hand_terminator_witness:
  "print_hand example_hand =
     (''PokerStars Hand #100:  Hold'em No Limit ($0.001/$0.002 USD) - T\<newline>Table 'Alpha' 6-max Seat #3 is the button\<newline>Seat 1: posts small blind $0\<newline>\<newline>\<newline>\<newline>'', None)
   \<and> (\<exists>cs. map convert_line (drop 2 (io_lines (text example_hand))) = map Inr cs \<and>
          ''PokerStars Hand #100:  Hold'em No Limit ($0.001/$0.002 USD) - T\<newline>Table 'Alpha' 6-max Seat #3 is the button\<newline>Seat 1: posts small blind $0\<newline>\<newline>\<newline>\<newline>''
            = header_line1 example_hand @ ''\<newline>'' @ header_line2 example_hand @ ''\<newline>''
              @ concat (map (\<lambda>l. strip l @ ''\<newline>'') cs) @ ''\<newline>\<newline>\<newline>'')"
proof -
  have h: "print_hand example_hand =
     (''PokerStars Hand #100:  Hold'em No Limit ($0.001/$0.002 USD) - T\<newline>Table 'Alpha' 6-max Seat #3 is the button\<newline>Seat 1: posts small blind $0\<newline>\<newline>\<newline>\<newline>'', None)"
    unfolding example_hand_def
    by (simp add: hand_eval string_eval times_100 money_100)
  from print_hand_terminator [OF h] h show ?thesis
    by blast
qed

section \<open>Exceptions of the parser and of the converter\<close>


lemma py_index_error: "py_index xs n = Inl e \<Longrightarrow> e = IndexError"
  by (auto simp: py_index_def split: if_splits)







lemma parse_id_text: "parse_id h = Inr h1 \<Longrightarrow> text h1 = text h"
  by (auto simp: parse_id_def split: sum.splits option.splits)

lemma parse_table_header_text: "parse_table_header h = Inr h1 \<Longrightarrow> text h1 = text h"
  by (auto simp: parse_table_header_def split: sum.splits option.splits if_splits)








section \<open>The identifier in a HandError\<close>



section \<open>The order of the header checks\<close>

text \<open>
  C10: \<open>parse\<close> checks the identifier, then line 1, then the stakes of line 0. When the
  identifier parses and line 1 does not match the table pattern, the error is the table
  header one, whatever line 0 holds beyond the identifier; and an error about the game type
  or the blind amounts is raised only for a block whose line 1 matched the table pattern
  with \<open>Play Money\<close> as its third group.
\<close>

theorem parse_error_precedence:
  "(parse_id h = Inr h1 \<and> py_index (splitlines (text h)) 1 = Inr line1 \<and>
      re_search table_rx line1 = None
    \<longrightarrow> parse h = Inl (HandError (''Unable to parse table header: '' @ line1) (hand_id h1)))
   \<and> (parse g = Inl (HandError msg i) \<and>
        (prefix ''Game type not recognised: '' msg \<or> prefix ''Unable to parse blind amounts: '' msg)
      \<longrightarrow> (\<exists>line1 gs. py_index (splitlines (text g)) 1 = Inr line1 \<and>
            re_search table_rx line1 = Some gs \<and> gs ! 2 = ''Play Money''))"
proof (intro conjI impI)
  assume a: "parse_id h = Inr h1 \<and> py_index (splitlines (text h)) 1 = Inr line1 \<and>
      re_search table_rx line1 = None"
  then have "text h1 = text h"
    by (simp add: parse_id_text)
  with a show "parse h = Inl (HandError (''Unable to parse table header: '' @ line1) (hand_id h1))"
    by (simp add: parse_def parse_table_header_def)
next
  assume a: "parse g = Inl (HandError msg i) \<and>
        (prefix ''Game type not recognised: '' msg \<or> prefix ''Unable to parse blind amounts: '' msg)"
  show "\<exists>line1 gs. py_index (splitlines (text g)) 1 = Inr line1 \<and>
            re_search table_rx line1 = Some gs \<and> gs ! 2 = ''Play Money''"
  proof (cases "parse_id g")
    case (Inl e)
    with a show ?thesis
      by (auto simp: parse_def parse_id_def split: sum.splits option.splits dest: py_index_error)
  next
    case g1: (Inr g1)
    then have t: "text g1 = text g"
      by (rule parse_id_text)
    show ?thesis
    proof (cases "parse_table_header g1")
      case (Inl e)
      with a g1 show ?thesis
        by (auto simp: parse_def parse_table_header_def
            split: sum.splits option.splits if_splits dest: py_index_error)
    next
      case (Inr g2)
      with t show ?thesis
        by (auto simp: parse_table_header_def split: sum.splits option.splits if_splits)
    qed
  qed
qed

text \<open>C10 at a block with no stakes in line 0 and no table header in line 1, and at a block
  with an unknown game type and a Play Money table.\<close>

theorem parse_error_precedence_witness:
  "parse (new_hand ''PokerStars Hand #7: Omaha\<newline>Seat 1: x\<newline>'') =
      Inl (HandError (''Unable to parse table header: '' @ ''Seat 1: x'') ''7'')
   \<and> (\<exists>line1 gs. py_index (splitlines (text (new_hand ''PokerStars Hand #8:  Hold'em Stud (100/200) - T\<newline>Table 'A' 6-max (Play Money) Seat #3 is the button\<newline>''))) 1 = Inr line1 \<and>
            re_search table_rx line1 = Some gs \<and> gs ! 2 = ''Play Money'')"
proof -
  let ?h = "new_hand ''PokerStars Hand #7: Omaha\<newline>Seat 1: x\<newline>''"
  let ?g = "new_hand ''PokerStars Hand #8:  Hold'em Stud (100/200) - T\<newline>Table 'A' 6-max (Play Money) Seat #3 is the button\<newline>''"
  let ?msg = "''Game type not recognised: PokerStars Hand #8:  Hold'em Stud (100/200) - T''"
  have a1: "parse_id ?h = Inr (?h\<lparr>hand_id := ''7''\<rparr>) \<and> py_index (splitlines (text ?h)) 1 = Inr ''Seat 1: x'' \<and>
      re_search table_rx ''Seat 1: x'' = None"
    by (simp add: hand_eval string_eval)
  have a2: "parse ?g = Inl (HandError ?msg ''8'') \<and>
        (prefix ''Game type not recognised: '' ?msg \<or> prefix ''Unable to parse blind amounts: '' ?msg)"
    by (simp add: hand_eval string_eval times_100 times_200 float_str_100 float_str_200)
  from parse_error_precedence [of ?h "?h\<lparr>hand_id := ''7''\<rparr>" "''Seat 1: x''" ?g ?msg "''8''"] a1 a2
  show ?thesis
    by simp
qed

lemma example_parse: "parse (new_hand example_block) = Inr example_parsed"
  unfolding example_block_def example_parsed_def
  by (simp add: hand_eval string_eval times_100 times_200 float_str_100 float_str_200)

section \<open>The blind strings of the header\<close>

text \<open>
  C2, as stated, fails: the stake 100 of the example block is stored as \<open>0.001\<close>, so the
  header shows \<open>$0.001\<close>, while the display of body amounts for 100 chips is \<open>$0\<close>.
\<close>

theorem stake_string_counterexample:
  "map_sum id sb (parse (new_hand example_block)) = Inr ''0.001'' \<and>
   map_sum id money (times_00001 100) = Inr ''$0''"
  by (simp add: example_parse example_parsed_def times_100 money_100)

text \<open>
  C2, amended: for every block that parses, each of the two integer stakes of line 0 is
  multiplied by \<open>0.00001\<close> and stored as the \<open>str\<close> of that float (the shortest decimal that
  reads back as it), not in the two-decimal display of body amounts; the header line shows
  the two strings, each after a \<open>$\<close>.
\<close>

theorem stakes_stored_as_float_str:
  assumes "parse h = Inr h'"
  shows "\<exists>line gs a b x y.
           py_index (splitlines (text h)) 0 = Inr line \<and> re_search stakes_rx line = Some gs \<and>
           py_int (gs ! 1) = Inr a \<and> py_int (gs ! 2) = Inr b \<and>
           times_00001 a = Inr x \<and> times_00001 b = Inr y \<and>
           sb h' = float_str x \<and> bb h' = float_str y \<and>
           header_line1 h' = ''PokerStars Hand #'' @ hand_id h' @ '':  Hold'em '' @ gs ! 0 @ '' ($''
             @ float_str x @ ''/$'' @ float_str y @ '' USD) - '' @ gs ! 3"
proof -
  from assms obtain h1 h2 where h1: "parse_id h = Inr h1"
    and h2: "parse_table_header h1 = Inr h2" and h': "parse_hand_header h2 = Inr h'"
    by (auto simp: parse_def split: sum.splits)
  have t: "text h2 = text h"
    using parse_id_text [OF h1] parse_table_header_text [OF h2] by simp
  from h' t obtain line gs s b where l: "py_index (splitlines (text h)) 0 = Inr line"
    and g: "re_search stakes_rx line = Some gs"
    and s: "stake_str (gs ! 1) = Inr s" and b: "stake_str (gs ! 2) = Inr b"
    and r: "h' = h2\<lparr>sb := s, bb := b, game_type := gs ! 0, date_time_stamp := gs ! 3\<rparr>"
    by (auto simp: parse_hand_header_def split: sum.splits option.splits if_splits)
  from s obtain a x where a: "py_int (gs ! 1) = Inr a" "times_00001 a = Inr x" "s = float_str x"
    by (auto simp: stake_str_def split: sum.splits)
  from b obtain c y where c: "py_int (gs ! 2) = Inr c" "times_00001 c = Inr y" "b = float_str y"
    by (auto simp: stake_str_def split: sum.splits)
  from r a c have "sb h' = float_str x \<and> bb h' = float_str y \<and>
           header_line1 h' = ''PokerStars Hand #'' @ hand_id h' @ '':  Hold'em '' @ gs ! 0 @ '' ($''
             @ float_str x @ ''/$'' @ float_str y @ '' USD) - '' @ gs ! 3"
    by (simp add: header_line1_def)
  with l g a c show ?thesis
    by blast
qed

text \<open>C2, amended, at the example block.\<close>

theorem stakes_stored_as_float_str_witness:
  "\<exists>line gs a b x y.
           py_index (splitlines (text (new_hand example_block))) 0 = Inr line \<and>
           re_search stakes_rx line = Some gs \<and>
           py_int (gs ! 1) = Inr a \<and> py_int (gs ! 2) = Inr b \<and>
           times_00001 a = Inr x \<and> times_00001 b = Inr y \<and>
           sb example_parsed = float_str x \<and> bb example_parsed = float_str y \<and>
           header_line1 example_parsed = ''PokerStars Hand #'' @ hand_id example_parsed
             @ '':  Hold'em '' @ gs ! 0 @ '' ($''
             @ float_str x @ ''/$'' @ float_str y @ '' USD) - '' @ gs ! 3"
  by (rule stakes_stored_as_float_str [OF example_parse])


section \<open>Substitution by value\<close>

lemma prefix_shorter: "prefix xs (a @ b) \<Longrightarrow> length xs \<le> length a \<Longrightarrow> prefix xs a"
  by (metis prefix_append prefix_def append_eq_append_conv_if take_is_prefix)

lemma contains_prefix: "prefix old s \<Longrightarrow> contains old s"
  by (cases s) auto

lemma replace_all_free: "\<not> contains old s \<Longrightarrow> replace_all old new s = s"
  by (induction s) auto

lemma replace_all_piece:
  "old \<noteq> [] \<Longrightarrow> \<not> contains old (p @ butlast old) \<Longrightarrow>
   replace_all old new (p @ old @ rest) = p @ new @ replace_all old new rest"
proof (induction p)
  case Nil
  then obtain c cs where "old = c # cs"
    by (cases old) auto
  then show ?case
    by simp
next
  case (Cons c p)
  from Cons.prems(1) obtain b l where old: "old = b @ [l]"
    by (cases old rule: rev_cases) auto
  have "\<not> prefix old ((c # p) @ old @ rest)"
  proof
    assume "prefix old ((c # p) @ old @ rest)"
    then have "prefix old (((c # p) @ b) @ (l # rest))"
      by (simp add: old)
    moreover have "length old \<le> length ((c # p) @ b)"
      by (simp add: old)
    ultimately have "prefix old ((c # p) @ b)"
      by (rule prefix_shorter)
    then have "contains old ((c # p) @ butlast old)"
      by (simp add: old contains_prefix del: contains.simps)
    with Cons.prems(2) show False
      by blast
  qed
  moreover from Cons.prems(2) have "\<not> contains old (p @ butlast old)"
    by simp
  ultimately show ?case
    using Cons.IH Cons.prems(1) by simp
qed

lemma replace_all_join:
  "old \<noteq> [] \<Longrightarrow> ps \<noteq> [] \<Longrightarrow> pieces_free old ps \<Longrightarrow>
   replace_all old new (join old ps) = join new ps"
proof (induction old ps rule: pieces_free.induct)
  case (1 old)
  then show ?case by simp
next
  case (2 old p)
  then show ?case by (simp add: replace_all_free)
next
  case (3 old p q ps)
  then show ?case
    by (simp add: replace_all_piece)
qed

lemma isdigit_nonempty: "isdigit g \<Longrightarrow> g \<noteq> []"
  by (simp add: isdigit_def)

text \<open>
  C7, as stated, fails: in \<open>: raises 200 to 1200\<close> the second capture is \<open>1200\<close>, whose
  converted string is \<open>$0.01\<close>; the substitution for the first capture \<open>200\<close> has already
  rewritten it to \<open>1$0\<close>, so the occurrence of \<open>1200\<close> at the captured position is not
  replaced by \<open>$0.01\<close>.
\<close>

theorem raise_pair_counterexample:
  "re_search (rules ! 4) '': raises 200 to 1200'' = Some [''200'', ''1200''] \<and>
   map_sum id money (times_00001 1200) = Inr ''$0.01'' \<and>
   convert (rules ! 4) '': raises 200 to 1200'' = Inr '': raises $0 to 1$0''"
  by (simp add: hand_eval string_eval float_eval money_eval)

text \<open>
  C7, amended: when \<open>_convert\<close> processes a capture \<open>g\<close> that \<open>isdigit\<close> accepts, every occurrence
  of \<open>g\<close> in the line as it then stands, found from the left without overlap, is replaced
  by the same converted string, wherever it is; the remaining captures of the match are
  then processed on the rewritten line.
\<close>

theorem convert_replaces_by_value:
  assumes "isdigit g" and "py_int g = Inr n" and "times_00001 n = Inr x"
    and "ps \<noteq> []" and "pieces_free g ps"
  shows "convert_groups (g # gs) (join g ps) = convert_groups gs (join (money x) ps) \<and>
         (re_search regex (join g ps) = Some (g # gs) \<longrightarrow>
            convert regex (join g ps) = convert_groups gs (join (money x) ps))"
proof -
  from assms(1) have "g \<noteq> []"
    by (rule isdigit_nonempty)
  with assms(4,5) have "replace_all g (money x) (join g ps) = join (money x) ps"
    by (simp add: replace_all_join)
  with assms(1-3) show ?thesis
    by (simp add: convert_def)
qed

text \<open>C7, amended, at a line where the captured \<open>100\<close> occurs three times, once inside
  \<open>2100\<close>.\<close>

theorem convert_replaces_by_value_witness:
  "convert_groups [''100''] '': bets 100, stack 2100, pot 100'' = Inr '': bets $0, stack 2$0, pot $0'' \<and>
   convert (rules ! 2) '': bets 100, stack 2100, pot 100'' = Inr '': bets $0, stack 2$0, pot $0''"
proof -
  have a: "isdigit ''100''" "py_int ''100'' = Inr 100"
    by (simp_all add: string_eval)
  have b: "['': bets '', '', stack 2'', '', pot '', []] \<noteq> []"
    "pieces_free ''100'' ['': bets '', '', stack 2'', '', pot '', []]"
    by simp_all
  have c: "re_search (rules ! 2) '': bets 100, stack 2100, pot 100'' = Some [''100'']"
    by (simp add: hand_eval string_eval)
  from convert_replaces_by_value [OF a times_100 b, of "[]" "rules ! 2"] c show ?thesis
    by (simp add: money_100)
qed



section \<open>Converting a converted line again\<close>

lemma contains_iff: "contains sub s = (\<exists>ps ss. s = ps @ sub @ ss)"
proof (induction s)
  case Nil
  then show ?case by auto
next
  case (Cons c cs)
  show ?case
  proof
    assume "contains sub (c # cs)"
    then consider "prefix sub (c # cs)" | "contains sub cs"
      by auto
    then show "\<exists>ps ss. c # cs = ps @ sub @ ss"
    proof cases
      case 1
      then obtain ss where "c # cs = sub @ ss"
        by (auto simp: prefix_def)
      then have "c # cs = [] @ sub @ ss"
        by simp
      then show ?thesis by blast
    next
      case 2
      with Cons.IH obtain ps ss where "cs = ps @ sub @ ss"
        by blast
      then have "c # cs = (c # ps) @ sub @ ss"
        by simp
      then show ?thesis by blast
    qed
  next
    assume "\<exists>ps ss. c # cs = ps @ sub @ ss"
    then obtain ps ss where eq: "c # cs = ps @ sub @ ss"
      by blast
    show "contains sub (c # cs)"
    proof (cases ps)
      case Nil
      with eq have "prefix sub (c # cs)"
        by (simp add: prefix_def)
      then show ?thesis by simp
    next
      case (Cons p ps')
      with eq have "cs = ps' @ sub @ ss"
        by simp
      with Cons.IH have "contains sub cs"
        by blast
      then show ?thesis by simp
    qed
  qed
qed

lemma captures_occur:
  "match_here r s = Some gs \<Longrightarrow> \<forall>g \<in> set gs. \<exists>ps ss. s = ps @ g @ ss"
  and "match_star k cap r acc s = Some gs \<Longrightarrow> \<forall>g \<in> set gs. \<exists>ps ss. acc @ s = ps @ g @ ss"
proof (induction r s and k cap r acc s arbitrary: gs and gs rule: match_here_match_star.induct)
  case (1 s)
  then show ?case by simp
next
  case (2 c r)
  then show ?case by simp
next
  case (3 c r x xs)
  from "3.prems" have x: "x = c" and m: "match_here r xs = Some gs"
    by (auto split: if_splits)
  show ?case
  proof
    fix g assume "g \<in> set gs"
    with "3.IH" [OF x m] obtain ps ss where "xs = ps @ g @ ss"
      by blast
    then have "x # xs = (x # ps) @ g @ ss"
      by simp
    then show "\<exists>ps ss. x # xs = ps @ g @ ss"
      by blast
  qed
next
  case (4 k r s)
  then show ?case by simp
next
  case (5 k r s)
  then show ?case by simp
next
  case (6 k cap r acc)
  from "6.prems" obtain gs' where m: "match_here r [] = Some gs'"
    and gs: "gs = (if cap then acc # gs' else gs')"
    by (auto split: option.splits)
  show ?case
  proof
    fix g assume g: "g \<in> set gs"
    show "\<exists>ps ss. acc @ [] = ps @ g @ ss"
    proof (cases "g \<in> set gs'")
      case True
      with "6.IH" [OF m] obtain ps ss where "[] = ps @ g @ ss"
        by blast
      then have "acc @ [] = (acc @ ps) @ g @ ss"
        by simp
      then show ?thesis by blast
    next
      case False
      with g gs have "g = acc"
        by (auto split: if_splits)
      then have "acc @ [] = [] @ g @ []"
        by simp
      then show ?thesis by blast
    qed
  qed
next
  case (7 k cap r acc x xs)
  show ?case
  proof (cases "if cls_match k x then match_star k cap r (acc @ [x]) xs else None")
    case (Some gs1)
    with "7.prems" have eq: "gs1 = gs"
      by simp
    from Some have cm: "cls_match k x" and m: "match_star k cap r (acc @ [x]) xs = Some gs1"
      by (auto split: if_splits)
    from "7.IH"(1) [OF cm m] eq show ?thesis
      by simp
  next
    case None
    with "7.prems" obtain gs' where m: "match_here r (x # xs) = Some gs'"
      and gs: "gs = (if cap then acc # gs' else gs')"
      by (auto split: option.splits)
    show ?thesis
    proof
      fix g assume g: "g \<in> set gs"
      show "\<exists>ps ss. acc @ x # xs = ps @ g @ ss"
      proof (cases "g \<in> set gs'")
        case True
        with "7.IH"(2) [OF None m] obtain ps ss where "x # xs = ps @ g @ ss"
          by blast
        then have "acc @ x # xs = (acc @ ps) @ g @ ss"
          by simp
        then show ?thesis by blast
      next
        case False
        with g gs have "g = acc"
          by (auto split: if_splits)
        then have "acc @ x # xs = [] @ g @ (x # xs)"
          by simp
        then show ?thesis by blast
      qed
    qed
  qed
qed

lemma search_captures_occur: "re_search r s = Some gs \<Longrightarrow> \<forall>g \<in> set gs. contains g s"
proof (induction s)
  case Nil
  from captures_occur(1) [of r "[]" gs] Nil show ?case
    by (simp add: contains_iff)
next
  case (Cons x xs)
  show ?case
  proof (cases "match_here r (x # xs)")
    case None
    with Cons.prems have "re_search r xs = Some gs"
      by simp
    with Cons.IH show ?thesis
      by simp
  next
    case (Some gs')
    with Cons.prems have "match_here r (x # xs) = Some gs"
      by simp
    from captures_occur(1) [OF this] show ?thesis
      by (simp only: contains_iff)
  qed
qed

lemma convert_groups_no_digits: "\<forall>g \<in> set gs. \<not> isdigit g \<Longrightarrow> convert_groups gs line = Inr line"
  by (induction gs) auto

lemma prefix_split: "prefix old s \<Longrightarrow> s = old @ drop (length old) s"
  by (auto simp: prefix_def)

lemma count_replace_all_le:
  "d \<notin> set old \<Longrightarrow> count_list s d \<le> count_list (replace_all old new s) d"
proof (induction old new s rule: replace_all.induct)
  case (1 old new)
  then show ?case by simp
next
  case (2 old new c cs)
  show ?case
  proof (cases "old \<noteq> [] \<and> prefix old (c # cs)")
    case True
    then have "c # cs = old @ drop (length old) (c # cs)"
      by (intro prefix_split) simp
    then have "count_list (c # cs) d
        = count_list old d + count_list (drop (length old) (c # cs)) d"
      by (metis count_list_append)
    also from "2.prems" have "count_list old d = 0"
      by (simp add: count_list_0_iff)
    finally have "count_list (c # cs) d = count_list (drop (length old) (c # cs)) d"
      by simp
    also from "2.IH"(1) [OF True "2.prems"]
    have "\<dots> \<le> count_list (replace_all old new (drop (length old) (c # cs))) d" .
    finally show ?thesis
      using True by simp
  next
    case False
    with "2.IH"(2) [OF False "2.prems"] show ?thesis
      by auto
  qed
qed

lemma count_replace_all_less:
  "old \<noteq> [] \<Longrightarrow> d \<notin> set old \<Longrightarrow> d \<in> set new \<Longrightarrow> contains old s \<Longrightarrow>
   count_list s d < count_list (replace_all old new s) d"
proof (induction old new s rule: replace_all.induct)
  case (1 old new)
  then show ?case by simp
next
  case (2 old new c cs)
  show ?case
  proof (cases "prefix old (c # cs)")
    case True
    then have "c # cs = old @ drop (length old) (c # cs)"
      by (rule prefix_split)
    then have "count_list (c # cs) d
        = count_list old d + count_list (drop (length old) (c # cs)) d"
      by (metis count_list_append)
    also from "2.prems"(2) have "count_list old d = 0"
      by (simp add: count_list_0_iff)
    finally have "count_list (c # cs) d = count_list (drop (length old) (c # cs)) d"
      by simp
    also from "2.prems"(2)
    have "\<dots> \<le> count_list (replace_all old new (drop (length old) (c # cs))) d"
      by (rule count_replace_all_le)
    also from "2.prems"(3) have "0 < count_list new d"
      by (simp add: count_list_0_iff zero_less_iff_neq_zero)
    then have "count_list (replace_all old new (drop (length old) (c # cs))) d
        < count_list (new @ replace_all old new (drop (length old) (c # cs))) d"
      by simp
    finally show ?thesis
      using True "2.prems"(1) by simp
  next
    case False
    with "2.prems"(4) have "contains old cs"
      by simp
    with "2.IH"(2) "2.prems"(1-3) False have "count_list cs d < count_list (replace_all old new cs) d"
      by simp
    with False show ?thesis
      by simp
  qed
qed

lemma money_dollar: "CHR ''$'' \<in> set (money x)"
  by (simp add: money_def)

lemma digit_char_not_dollar: "is_digit_char c \<Longrightarrow> c \<noteq> CHR ''$''"
  by (auto simp: is_digit_char_def is_ascii_digit_def)

lemma isdigit_no_dollar: "isdigit g \<Longrightarrow> CHR ''$'' \<notin> set g"
  using digit_char_not_dollar by (auto simp: isdigit_def list_all_iff)

lemma convert_groups_count:
  "convert_groups gs line = Inr l' \<Longrightarrow> count_list line (CHR ''$'') \<le> count_list l' (CHR ''$'')"
proof (induction gs line rule: convert_groups.induct)
  case (1 line)
  then show ?case by simp
next
  case (2 g gs line)
  show ?case
  proof (cases "isdigit g")
    case True
    with "2.prems" obtain n x where n: "py_int g = Inr n" and x: "times_00001 n = Inr x"
      and c: "convert_groups gs (replace_all g (money x) line) = Inr l'"
      by (auto split: sum.splits)
    from isdigit_no_dollar [OF True]
    have "count_list line (CHR ''$'') \<le> count_list (replace_all g (money x) line) (CHR ''$'')"
      by (rule count_replace_all_le)
    also from "2.IH"(1) [OF True n x c]
    have "\<dots> \<le> count_list l' (CHR ''$'')" .
    finally show ?thesis .
  next
    case False
    with "2.prems" "2.IH"(2) show ?thesis
      by simp
  qed
qed

lemma convert_groups_changes:
  "convert_groups gs line = Inr l' \<Longrightarrow> \<forall>g \<in> set gs. contains g line \<Longrightarrow> list_ex isdigit gs \<Longrightarrow>
   count_list line (CHR ''$'') < count_list l' (CHR ''$'')"
proof (induction gs)
  case Nil
  then show ?case by simp
next
  case (Cons g gs)
  show ?case
  proof (cases "isdigit g")
    case True
    with Cons.prems(1) obtain n x
      where c: "convert_groups gs (replace_all g (money x) line) = Inr l'"
      by (auto split: sum.splits)
    from Cons.prems(2) have "contains g line"
      by simp
    with isdigit_nonempty [OF True] isdigit_no_dollar [OF True] money_dollar [of x]
    have "count_list line (CHR ''$'') < count_list (replace_all g (money x) line) (CHR ''$'')"
      by (intro count_replace_all_less)
    also from convert_groups_count [OF c]
    have "\<dots> \<le> count_list l' (CHR ''$'')" .
    finally show ?thesis .
  next
    case False
    with Cons.prems have "convert_groups gs line = Inr l'" "\<forall>g \<in> set gs. contains g line"
      "list_ex isdigit gs"
      by simp_all
    then show ?thesis
      by (rule Cons.IH)
  qed
qed

lemma convert_count:
  "convert r line = Inr l' \<Longrightarrow> count_list line (CHR ''$'') \<le> count_list l' (CHR ''$'')"
  by (auto simp: convert_def split: option.splits dest: convert_groups_count)

lemma convert_rules_count:
  "convert_rules rs line = Inr l' \<Longrightarrow> count_list line (CHR ''$'') \<le> count_list l' (CHR ''$'')"
proof (induction rs arbitrary: line)
  case Nil
  then show ?case by simp
next
  case (Cons r rs)
  from Cons.prems obtain l1 where 1: "convert r line = Inr l1" and 2: "convert_rules rs l1 = Inr l'"
    by (auto split: sum.splits)
  from convert_count [OF 1] Cons.IH [OF 2] show ?case
    by simp
qed

lemma convert_settled: "settled_rule r line \<Longrightarrow> convert r line = Inr line"
  by (auto simp: settled_rule_def convert_def list_ex_iff split: option.splits
      intro: convert_groups_no_digits)

lemma convert_unsettled:
  assumes "\<not> settled_rule r line" and "convert r line = Inr l'"
  shows "count_list line (CHR ''$'') < count_list l' (CHR ''$'')"
proof -
  from assms(1) obtain gs where gs: "re_search r line = Some gs" and d: "list_ex isdigit gs"
    by (auto simp: settled_rule_def split: option.splits)
  from assms(2) gs have "convert_groups gs line = Inr l'"
    by (simp add: convert_def)
  from this search_captures_occur [OF gs] d show ?thesis
    by (rule convert_groups_changes)
qed

lemma convert_rules_fixed_iff:
  "(convert_rules rs line = Inr line) = list_all (\<lambda>r. settled_rule r line) rs"
proof (induction rs)
  case Nil
  then show ?case by simp
next
  case (Cons r rs)
  show ?case
  proof
    assume a: "convert_rules (r # rs) line = Inr line"
    then obtain l1 where 1: "convert r line = Inr l1" and 2: "convert_rules rs l1 = Inr line"
      by (auto split: sum.splits)
    have s: "settled_rule r line"
    proof (rule ccontr)
      assume "\<not> settled_rule r line"
      from convert_unsettled [OF this 1] convert_rules_count [OF 2] show False
        by simp
    qed
    with 1 have "l1 = line"
      by (simp add: convert_settled)
    with 2 Cons.IH s show "list_all (\<lambda>r. settled_rule r line) (r # rs)"
      by simp
  next
    assume "list_all (\<lambda>r. settled_rule r line) (r # rs)"
    with Cons.IH show "convert_rules (r # rs) line = Inr line"
      by (simp add: convert_settled)
  qed
qed

text \<open>
  C5, as stated, fails: the first application converts the first \<open>(5 in chips)\<close> only, and
  a second application changes its output, because the pattern now matches at the second
  phrase.
\<close>

theorem second_pass_counterexample:
  "convert_line ''(5 in chips) (7 in chips)'' = Inr ''($0 in chips) (7 in chips)'' \<and>
   convert_line ''($0 in chips) (7 in chips)'' = Inr ''($0 in chips) ($0 in chips)''"
  by (simp add: hand_eval string_eval float_eval money_eval)

text \<open>
  C5, amended: applying the whole rule list again to the line \<open>l'\<close> that a first application
  produced leaves \<open>l'\<close> unchanged exactly when \<open>l'\<close> is settled, that is when no rule, at
  the match that \<open>re.search\<close> finds for it in \<open>l'\<close>, captures a string that \<open>isdigit\<close> accepts.
  Otherwise the second application changes the line or raises. (The equivalence holds for
  every line; substitutions only add \<open>$\<close> characters.)
\<close>

theorem second_pass_unchanged_iff:
  assumes "convert_line l = Inr l'"
  shows "(convert_line l' = Inr l') = settled l'"
  by (simp add: convert_line_def settled_def convert_rules_fixed_iff)

text \<open>C5, amended, at the first-pass output of \<open>Seat 1: posts small blind 100\<close>: it is
  settled, and the second application leaves it unchanged.\<close>

theorem second_pass_unchanged_iff_witness:
  "settled ''Seat 1: posts small blind $0\<newline>'' \<and>
   convert_line ''Seat 1: posts small blind $0\<newline>'' = Inr ''Seat 1: posts small blind $0\<newline>''"
proof -
  have first: "convert_line ''Seat 1: posts small blind 100\<newline>'' = Inr ''Seat 1: posts small blind $0\<newline>''"
    by (simp add: hand_eval string_eval times_100 money_100)
  have st: "settled ''Seat 1: posts small blind $0\<newline>''"
    by (simp add: settled_def settled_rule_def hand_eval string_eval)
  from second_pass_unchanged_iff [OF first] st show ?thesis
    by simp
qed



section \<open>The rounding error of the amount\<close>

lemma round_half_even_error:
  assumes "0 < b"
  shows "\<bar>real (round_half_even a b) - real a / real b\<bar> \<le> 1 / 2"
proof -
  have "real a = real b * real (a div b) + real (a mod b)"
    by (metis mult_div_mod_eq of_nat_add of_nat_mult)
  with assms have q: "real a / real b = real (a div b) + real (a mod b) / real b"
    by (simp add: field_simps)
  have m: "real (a mod b) < real b"
    using assms by simp
  consider "2 * (a mod b) < b" | "b < 2 * (a mod b)" | "2 * (a mod b) = b"
    by linarith
  then show ?thesis
  proof cases
    case 1
    then have "real (a mod b) / real b < 1 / 2"
      using assms by (simp add: field_simps)
    moreover have "0 \<le> real (a mod b) / real b"
      by simp
    ultimately show ?thesis
      using 1 q by (simp add: round_half_even_def)
  next
    case 2
    then have "1 / 2 < real (a mod b) / real b"
      using assms by (simp add: field_simps)
    moreover have "real (a mod b) / real b < 1"
      using assms m by (simp add: field_simps)
    ultimately show ?thesis
      using 2 q by (simp add: round_half_even_def)
  next
    case 3
    then have "real (2 * (a mod b)) = real b"
      by simp
    then have "real (a mod b) / real b = 1 / 2"
      using assms by (simp add: field_simps)
    then show ?thesis
      using 3 q by (simp add: round_half_even_def)
  qed
qed

lemma round_half_even_one: "round_half_even a (Suc 0) = a"
  by (simp add: round_half_even_def)

lemma bit_length_bounds: "0 < n \<Longrightarrow> 2 ^ (bit_length n - 1) \<le> n \<and> n < 2 ^ bit_length n"
proof (induction n rule: bit_length.induct)
  case (1 n)
  show ?case
  proof (cases "n div 2 = 0")
    case True
    with "1.prems" have "n = 1"
      by (simp add: div_eq_0_iff) 
    then show ?thesis
      by (simp add: bit_length.simps)
  next
    case False
    with "1.IH" "1.prems" have ih: "2 ^ (bit_length (n div 2) - 1) \<le> n div 2"
      "n div 2 < 2 ^ bit_length (n div 2)"
      by simp_all
    from False have pos: "0 < bit_length (n div 2)"
      by (simp add: bit_length.simps [of "n div 2"])
    have bl: "bit_length n = Suc (bit_length (n div 2))"
      using "1.prems" by (simp add: bit_length.simps [of n])
    from pos have "(2::nat) ^ bit_length (n div 2) = 2 * 2 ^ (bit_length (n div 2) - 1)"
      by (cases "bit_length (n div 2)") simp_all
    with ih(1) have "2 ^ bit_length (n div 2) \<le> n"
      by linarith
    moreover from ih(2) have "n < 2 * 2 ^ bit_length (n div 2)"
      by linarith
    ultimately show ?thesis
      by (simp add: bl)
  qed
qed

lemma powi_neg:
  assumes "e < 0"
  shows "(2::real) powi e = 1 / 2 ^ nat (- e)"
proof -
  have "(2::real) powi (- (- e)) = 1 / 2 powi (- e)"
    by (rule power_int_minus_divide)
  moreover have "(2::real) powi (- e) = 2 ^ nat (- e)"
    using assms by (intro power_int_nonneg_exp) simp
  ultimately show ?thesis
    by simp
qed

lemma bit_length_real:
  assumes "0 < n"
  shows "2 powi (int (bit_length n) - 1) \<le> real n" and "real n < 2 powi (int (bit_length n))"
proof -
  from bit_length_bounds [OF assms]
  have lo: "2 ^ (bit_length n - 1) \<le> n" and hi: "n < 2 ^ bit_length n"
    by simp_all
  from assms have pos: "0 < bit_length n"
    by (simp add: bit_length.simps [of n])
  then have "int (bit_length n) - 1 = int (bit_length n - 1)"
    by simp
  then have "(2::real) powi (int (bit_length n) - 1) = 2 ^ (bit_length n - 1)"
    by (simp only: power_int_of_nat)
  also have "\<dots> = real (2 ^ (bit_length n - 1))"
    by simp
  also have "\<dots> \<le> real n"
    using lo by (simp only: of_nat_le_iff)
  finally show "2 powi (int (bit_length n) - 1) \<le> real n" .
  have "real n < real (2 ^ bit_length n)"
    using hi by (simp only: of_nat_less_iff)
  then show "real n < 2 powi (int (bit_length n))"
    by simp
qed

lemma floor_log2_bounds:
  assumes "0 < num" and "0 < den"
  shows "2 powi (floor_log2 num den) \<le> real num / real den"
    and "real num / real den < 2 powi (floor_log2 num den + 1)"
proof -
  define d where "d = int (bit_length num) - int (bit_length den)"
  define r where "r = real num / real den"
  have dpos: "0 < real den" and npos: "0 < real num"
    using assms by simp_all
  have up: "r < 2 powi (d + 1)"
  proof -
    have "real num / real den < 2 powi (int (bit_length num)) / 2 powi (int (bit_length den) - 1)"
    proof (rule frac_less)
      show "0 \<le> real num" by simp
      show "real num < 2 powi int (bit_length num)"
        by (rule bit_length_real(2) [OF assms(1)])
      show "0 < (2::real) powi (int (bit_length den) - 1)" by simp
      show "2 powi (int (bit_length den) - 1) \<le> real den"
        by (rule bit_length_real(1) [OF assms(2)])
    qed
    also have "\<dots> = 2 powi (int (bit_length num) - (int (bit_length den) - 1))"
      by (rule power_int_diff [symmetric]) simp
    also have "int (bit_length num) - (int (bit_length den) - 1) = d + 1"
      by (simp add: d_def)
    finally show ?thesis
      by (simp only: r_def)
  qed
  have low: "2 powi (d - 1) \<le> r"
  proof -
    have "d - 1 = int (bit_length num) - 1 - int (bit_length den)"
      by (simp add: d_def)
    then have "(2::real) powi (d - 1) = 2 powi (int (bit_length num) - 1 - int (bit_length den))"
      by (simp only:)
    also have "\<dots> = 2 powi (int (bit_length num) - 1) / 2 powi (int (bit_length den))"
      by (rule power_int_diff) simp
    also have "\<dots> \<le> real num / real den"
    proof (rule frac_le)
      show "0 \<le> real num" by simp
      show "2 powi (int (bit_length num) - 1) \<le> real num"
        by (rule bit_length_real(1) [OF assms(1)])
      show "0 < real den" by (rule dpos)
      show "real den \<le> 2 powi int (bit_length den)"
        using bit_length_real(2) [OF assms(2)] by (rule less_imp_le)
    qed
    finally show ?thesis
      by (simp only: r_def)
  qed
  have test: "(if 0 \<le> d then den * 2 ^ nat d \<le> num else den \<le> num * 2 ^ nat (- d)) = (2 powi d \<le> r)"
  proof (cases "0 \<le> d")
    case True
    then have "(2::real) powi d = 2 ^ nat d"
      by (simp add: power_int_nonneg_exp)
    moreover have "(den * 2 ^ nat d \<le> num) = (real den * 2 ^ nat d \<le> real num)"
      by (metis of_nat_le_iff of_nat_mult of_nat_numeral of_nat_power)
    ultimately show ?thesis
      using True dpos by (simp add: r_def field_simps)
  next
    case False
    define w where "w = (2::real) ^ nat (- d)"
    have wpos: "0 < w"
      by (simp add: w_def)
    from False have pw: "(2::real) powi d = 1 / w"
      unfolding w_def by (intro powi_neg) simp
    have "(den \<le> num * 2 ^ nat (- d)) = (real den \<le> real num * w)"
      unfolding w_def by (metis of_nat_le_iff of_nat_mult of_nat_numeral of_nat_power)
    moreover have "(1 / w \<le> real num / real den) = (real den \<le> real num * w)"
      using dpos wpos by (simp add: field_simps)
    ultimately show ?thesis
      using False by (simp add: r_def pw)
  qed
  have fl: "floor_log2 num den = (if 2 powi d \<le> r then d else d - 1)"
    unfolding floor_log2_def Let_def d_def [symmetric] test ..
  have A: "2 powi (floor_log2 num den) \<le> r"
  proof (cases "2 powi d \<le> r")
    case True
    then show ?thesis by (simp add: fl)
  next
    case False
    then show ?thesis using low by (simp add: fl)
  qed
  have B: "r < 2 powi (floor_log2 num den + 1)"
  proof (cases "2 powi d \<le> r")
    case True
    then show ?thesis using up by (simp add: fl)
  next
    case False
    then show ?thesis by (simp add: fl)
  qed
  from A show "2 powi (floor_log2 num den) \<le> real num / real den"
    by (simp only: r_def)
  from B show "real num / real den < 2 powi (floor_log2 num den + 1)"
    by (simp only: r_def)
qed

lemma mantissa_at_error:
  assumes "0 < den"
  shows "\<bar>real (mantissa_at num den e) - real num / real den / 2 powi e\<bar> \<le> 1 / 2"
proof (cases "0 \<le> e")
  case True
  then have p: "(2::real) powi e = 2 ^ nat e"
    by (simp add: power_int_nonneg_exp)
  from assms have "0 < den * 2 ^ nat e"
    by simp
  from round_half_even_error [OF this, of num] show ?thesis
    using True by (simp add: mantissa_at_def p field_simps)
next
  case False
  then have p: "(2::real) powi e = 1 / 2 ^ nat (- e)"
    by (intro powi_neg) simp
  from round_half_even_error [OF assms, of "num * 2 ^ nat (- e)"] show ?thesis
    using False by (simp add: mantissa_at_def p field_simps)
qed

lemma to_double_value:
  "float_val (to_double num den) =
     real (mantissa_at num den (floor_log2 num den - 52)) * 2 powi (floor_log2 num den - 52)
   \<or> num = 0"
proof (cases "num = 0")
  case True
  then show ?thesis by simp
next
  case False
  have "(2::real) powi (floor_log2 num den - 52 + 1) = 2 powi (floor_log2 num den - 52) * 2"
    by (rule power_int_add_1) simp
  then have "(2::real) powi (floor_log2 num den - 51) = 2 powi (floor_log2 num den - 52) * 2"
    by (simp add: algebra_simps)
  then show ?thesis
    using False by (simp add: to_double_def float_val_def Let_def)
qed

lemma to_double_error:
  assumes "0 < num" and "0 < den"
  shows "\<bar>float_val (to_double num den) - real num / real den\<bar> \<le> real num / real den * 2 powi (- 53)"
proof -
  define lg where "lg = floor_log2 num den"
  define m where "m = mantissa_at num den (lg - 52)"
  define r where "r = real num / real den"
  define u where "u = (2::real) powi (lg - 52)"
  define k where "k = (2::real) powi (- 53)"
  from to_double_value [of num den] assms(1) have v: "float_val (to_double num den) = real m * u"
    by (simp add: m_def lg_def u_def)
  have p: "0 < u"
    by (simp add: u_def)
  have "\<bar>real m - r / u\<bar> \<le> 1 / 2"
    unfolding m_def r_def u_def by (rule mantissa_at_error [OF assms(2)])
  then have "\<bar>real m - r / u\<bar> * u \<le> 1 / 2 * u"
    using p by (simp only: mult_le_cancel_right_pos)
  moreover have "\<bar>real m - r / u\<bar> * u = \<bar>real m * u - r\<bar>"
  proof -
    have "\<bar>real m - r / u\<bar> * u = \<bar>(real m - r / u) * u\<bar>"
      using p by (simp add: abs_mult)
    also have "(real m - r / u) * u = real m * u - r"
      using p by (simp add: field_simps)
    finally show ?thesis .
  qed
  ultimately have e1: "\<bar>real m * u - r\<bar> \<le> 1 / 2 * u"
    by simp
  have e2: "1 / 2 * u = 2 powi lg * k"
  proof -
    have "(2::real) powi (lg + (- 53)) = 2 powi lg * 2 powi (- 53)"
      by (rule power_int_add) simp
    moreover have "(2::real) powi (lg + (- 53) + 1) = 2 powi (lg + (- 53)) * 2"
      by (rule power_int_add_1) simp
    moreover have "lg + (- 53) + 1 = lg - 52"
      by simp
    ultimately have "u = 2 powi lg * 2 powi (- 53) * 2"
      by (simp only: u_def)
    then show ?thesis
      by (simp add: k_def)
  qed
  have "2 powi lg \<le> r"
    unfolding lg_def r_def by (rule floor_log2_bounds(1) [OF assms])
  moreover have "0 \<le> k"
    by (simp add: k_def)
  ultimately have e3: "2 powi lg * k \<le> r * k"
    by (rule mult_right_mono)
  from e1 e2 e3 have "\<bar>real m * u - r\<bar> \<le> r * k"
    by linarith
  then show ?thesis
    by (simp only: v r_def k_def)
qed


lemma snd_to_double:
  "num = 0 \<or> snd (to_double num den) = floor_log2 num den - 52
   \<or> snd (to_double num den) = floor_log2 num den - 51"
  by (simp add: to_double_def Let_def)

lemma small_int_log2:
  assumes "0 < q" and "q < 2 ^ 53"
  shows "0 \<le> floor_log2 q 1" and "floor_log2 q 1 \<le> 52"
proof -
  have one: "(0::nat) < 1"
    by simp
  from floor_log2_bounds [OF assms(1) one]
  have lo: "2 powi (floor_log2 q 1) \<le> real q" and hi: "real q < 2 powi (floor_log2 q 1 + 1)"
    by simp_all
  show "0 \<le> floor_log2 q 1"
  proof (rule ccontr)
    assume "\<not> 0 \<le> floor_log2 q 1"
    then have "floor_log2 q 1 + 1 \<le> 0"
      by simp
    then have "(2::real) powi (floor_log2 q 1 + 1) \<le> 2 powi 0"
      by (intro power_int_increasing) simp_all
    with hi have "real q < 1"
      by simp
    with assms(1) show False
      by simp
  qed
  show "floor_log2 q 1 \<le> 52"
  proof (rule ccontr)
    assume "\<not> floor_log2 q 1 \<le> 52"
    then have "53 \<le> floor_log2 q 1"
      by simp
    then have "(2::real) powi 53 \<le> 2 powi (floor_log2 q 1)"
      by (intro power_int_increasing) simp_all
    with lo have "(2::real) ^ 53 \<le> real q"
      by simp
    moreover from assms(2) have "real q < real (2 ^ 53)"
      by (simp only: of_nat_less_iff)
    ultimately show False
      by simp
  qed
qed

lemma small_int_exact:
  assumes "0 < q" and "q < 2 ^ 53"
  shows "float_val (to_double q 1) = real q" and "snd (to_double q 1) \<le> 1"
proof -
  define lg where "lg = floor_log2 q 1"
  from small_int_log2 [OF assms] have r: "0 \<le> lg" "lg \<le> 52"
    by (simp_all add: lg_def)
  have m: "mantissa_at q 1 (lg - 52) = q * 2 ^ nat (52 - lg)"
  proof (cases "0 \<le> lg - 52")
    case True
    with r have "lg - 52 = 0"
      by simp
    then show ?thesis
      by (simp add: mantissa_at_def round_half_even_one)
  next
    case False
    then show ?thesis
      by (simp add: mantissa_at_def round_half_even_one)
  qed
  have "float_val (to_double q 1) = real (mantissa_at q 1 (lg - 52)) * 2 powi (lg - 52)"
    using to_double_value [of q 1] assms(1) unfolding lg_def by blast
  then have "float_val (to_double q 1) = real (q * 2 ^ nat (52 - lg)) * 2 powi (lg - 52)"
    by (simp only: m)
  also have "\<dots> = real q * (2 powi (52 - lg) * 2 powi (lg - 52))"
    using r by (simp add: power_int_nonneg_exp)
  also have "(2::real) powi (52 - lg) * 2 powi (lg - 52) = 2 powi (52 - lg + (lg - 52))"
    by (rule power_int_add [symmetric]) simp
  finally show "float_val (to_double q 1) = real q"
    by simp
  from snd_to_double [of q 1] assms(1) r show "snd (to_double q 1) \<le> 1"
    by (auto simp: lg_def)
qed

lemma float_mul_error:
  assumes "0 < fst x" and "0 < fst y"
  shows "\<bar>float_val (float_mul x y) - float_val x * float_val y\<bar>
           \<le> float_val x * float_val y * 2 powi (- 53)"
proof -
  define m where "m = fst x * fst y"
  define e where "e = snd x + snd y"
  have mpos: "0 < m"
    using assms by (simp add: m_def)
  have prod: "float_val x * float_val y = real m * 2 powi e"
  proof -
    have "(2::real) powi (snd x + snd y) = 2 powi snd x * 2 powi snd y"
      by (rule power_int_add) simp
    then show ?thesis
      by (simp add: float_val_def m_def e_def)
  qed
  show ?thesis
  proof (cases "0 \<le> e")
    case True
    then have fm: "float_mul x y = to_double (m * 2 ^ nat e) 1"
      by (simp add: float_mul_def Let_def m_def e_def)
    have "real (m * 2 ^ nat e) / real 1 = real m * 2 powi e"
      using True by (simp add: power_int_nonneg_exp)
    moreover have "0 < m * 2 ^ nat e"
      using mpos by simp
    then have "\<bar>float_val (to_double (m * 2 ^ nat e) 1) - real (m * 2 ^ nat e) / real 1\<bar>
        \<le> real (m * 2 ^ nat e) / real 1 * 2 powi (- 53)"
      by (rule to_double_error) simp
    ultimately show ?thesis
      by (simp only: fm prod)
  next
    case False
    then have fm: "float_mul x y = to_double m (2 ^ nat (- e))"
      by (simp add: float_mul_def Let_def m_def e_def)
    from False have "(2::real) powi e = 1 / 2 ^ nat (- e)"
      by (intro powi_neg) simp
    then have "real m / real (2 ^ nat (- e)) = real m * 2 powi e"
      by simp
    moreover have "\<bar>float_val (to_double m (2 ^ nat (- e))) - real m / real (2 ^ nat (- e))\<bar>
        \<le> real m / real (2 ^ nat (- e)) * 2 powi (- 53)"
      using mpos by (rule to_double_error) simp
    ultimately show ?thesis
      by (simp only: fm prod)
  qed
qed

lemma cents_error: "\<bar>real (cents x) - 100 * float_val x\<bar> \<le> 1 / 2"
proof (cases "0 \<le> snd x")
  case True
  then show ?thesis
    by (simp add: cents_def float_val_def power_int_nonneg_exp)
next
  case False
  then have p: "(2::real) powi (snd x) = 1 / 2 ^ nat (- snd x)"
    by (intro powi_neg) simp
  have "(0::nat) < 2 ^ nat (- snd x)"
    by simp
  from round_half_even_error [OF this, of "100 * fst x"] show ?thesis
    using False by (simp add: cents_def float_val_def p)
qed

lemma fst_to_double_pos: "0 < q \<Longrightarrow> float_val (to_double q 1) = real q \<Longrightarrow> 0 < fst (to_double q 1)"
  by (cases "fst (to_double q 1) = 0") (auto simp: float_val_def)

lemma times_00001_small:
  assumes "0 < q" and "q < 2 ^ 53"
  shows "\<exists>x. times_00001 q = Inr x \<and>
           \<bar>float_val x - real q * (5902958103587057 / 2 ^ 69)\<bar>
             \<le> real q * (5902958103587057 / 2 ^ 69) * 2 powi (- 53)"
proof -
  define X where "X = to_double q 1"
  from small_int_exact [OF assms] have v: "float_val X = real q" and s: "snd X \<le> 1"
    by (simp_all add: X_def)
  from fst_to_double_pos [OF assms(1)] v have p: "0 < fst X"
    by (simp add: X_def)
  have c: "float_val c_00001 = 5902958103587057 / 2 ^ 69" and cp: "0 < fst c_00001"
    by (simp_all add: float_val_def c_00001_def)
  from s have t: "times_00001 q = Inr (float_mul X c_00001)"
    unfolding X_def by (simp add: times_00001_def int_to_float_def Let_def)
  from float_mul_error [OF p cp] show ?thesis
    by (simp only: t v c) blast
qed

lemma cents_nearest:
  assumes "q < 2 ^ 52" and "times_00001 q = Inr x"
  shows "\<bar>1000 * int (cents x) - int q\<bar> \<le> 500"
proof (cases "q = 0")
  case True
  with assms(2) have "x = (0, 0)"
    by (simp add: float_eval)
  with True show ?thesis
    by (simp add: cents_def)
next
  case False
  then have pos: "0 < q"
    by simp
  from assms(1) have "q < 2 ^ 53"
    by simp
  from times_00001_small [OF pos this] assms(2)
  have e: "\<bar>float_val x - real q * (5902958103587057 / 2 ^ 69)\<bar>
             \<le> real q * (5902958103587057 / 2 ^ 69) * 2 powi (- 53)"
    by simp
  from assms(1) have "real q < real (2 ^ 52)"
    by (simp only: of_nat_less_iff)
  then have b: "real q < 4503599627370496"
    by simp
  have n: "\<bar>real (cents x) - 100 * float_val x\<bar> \<le> 1 / 2"
    by (rule cents_error)
  define v where "v = float_val x"
  define c where "c = real (cents x)"
  define r where "r = real q"
  have r0: "0 \<le> r"
    by (simp add: r_def)
  from e have e': "\<bar>v - r * (5902958103587057 / 590295810358705651712)\<bar>
      \<le> r * (5902958103587057 / 590295810358705651712) * (1 / 9007199254740992)"
    by (simp add: v_def r_def)
  from e' n b r0 have "\<bar>1000 * c - r\<bar> < 501"
    unfolding v_def [symmetric] c_def [symmetric] r_def [symmetric] by linarith
  then have "\<bar>real_of_int (1000 * int (cents x) - int q)\<bar> < 501"
    by (simp add: c_def r_def)
  then have "\<bar>1000 * int (cents x) - int q\<bar> < 501"
    by linarith
  then show ?thesis
    by simp
qed


lemma digit_char_ascii: "k < 10 \<Longrightarrow> is_ascii_digit (digit_char k)"
proof -
  assume "k < 10"
  then have "k = 0 \<or> k = 1 \<or> k = 2 \<or> k = 3 \<or> k = 4 \<or> k = 5 \<or> k = 6 \<or> k = 7 \<or> k = 8 \<or> k = 9"
    by arith
  then show ?thesis
    by (auto simp: digit_char_def is_ascii_digit_def)
qed

lemma digit_char_zero: "k < 10 \<Longrightarrow> (digit_char k = CHR ''0'') = (k = 0)"
proof -
  assume "k < 10"
  then have "k = 0 \<or> k = 1 \<or> k = 2 \<or> k = 3 \<or> k = 4 \<or> k = 5 \<or> k = 6 \<or> k = 7 \<or> k = 8 \<or> k = 9"
    by arith
  then show ?thesis
    by (auto simp: digit_char_def)
qed

lemma str_nat_digits: "list_all is_ascii_digit (str_nat n)"
proof (induction n rule: str_nat.induct)
  case (1 n)
  show ?case
  proof (cases "n < 10")
    case True
    then show ?thesis
      by (simp add: str_nat.simps [of n] digit_char_ascii)
  next
    case False
    with "1.IH" show ?thesis
      by (simp add: str_nat.simps [of n] digit_char_ascii)
  qed
qed

lemma replace_all_skip:
  "list_all (\<lambda>c. c \<noteq> CHR ''.'') s \<Longrightarrow>
   replace_all ''.00'' [] (s @ t) = s @ replace_all ''.00'' [] t"
  by (induction s) auto

lemma dollar_digits_no_dot:
  "list_all is_ascii_digit a \<Longrightarrow> list_all (\<lambda>c. c \<noteq> CHR ''.'') (CHR ''$'' # a)"
  by (induction a) (auto simp: is_ascii_digit_def)

lemma replace_all_decimals:
  "replace_all ''.00'' [] [CHR ''.'', d1, d2] =
     (if d1 = CHR ''0'' \<and> d2 = CHR ''0'' then [] else [CHR ''.'', d1, d2])"
  by auto

lemma last_two_digits_zero: "((n::nat) mod 100 div 10 = 0 \<and> n mod 10 = 0) = (n mod 100 = 0)"
proof -
  have a: "n mod 100 mod 10 = n mod 10"
    by (simp add: mod_mod_cancel)
  have "n mod 100 = 10 * (n mod 100 div 10) + n mod 100 mod 10"
    by simp
  with a have "n mod 100 = 10 * (n mod 100 div 10) + n mod 10"
    by simp
  then show ?thesis
    by linarith
qed

lemma money_layout:
  "money x = ''$'' @ (if cents x mod 100 = 0 then str_nat (cents x div 100)
                      else two_decimals (cents x))"
proof -
  define n where "n = cents x"
  define a where "a = str_nat (n div 100)"
  define d1 where "d1 = digit_char (n mod 100 div 10)"
  define d2 where "d2 = digit_char (n mod 10)"
  have "list_all is_ascii_digit a"
    unfolding a_def by (rule str_nat_digits)
  then have "list_all (\<lambda>c. c \<noteq> CHR ''.'') (CHR ''$'' # a)"
    by (rule dollar_digits_no_dot)
  then have "replace_all ''.00'' [] ((CHR ''$'' # a) @ [CHR ''.'', d1, d2])
      = (CHR ''$'' # a) @ replace_all ''.00'' [] [CHR ''.'', d1, d2]"
    by (rule replace_all_skip)
  also have "replace_all ''.00'' [] [CHR ''.'', d1, d2]
      = (if d1 = CHR ''0'' \<and> d2 = CHR ''0'' then [] else [CHR ''.'', d1, d2])"
    by (rule replace_all_decimals)
  also have "(d1 = CHR ''0'' \<and> d2 = CHR ''0'') = (n mod 100 = 0)"
  proof -
    have "n mod 100 div 10 < 10" "n mod 10 < 10"
      by simp_all
    then have "(d1 = CHR ''0'' \<and> d2 = CHR ''0'') = (n mod 100 div 10 = 0 \<and> n mod 10 = 0)"
      by (simp only: d1_def d2_def digit_char_zero)
    then show ?thesis
      by (simp only: last_two_digits_zero)
  qed
  finally have r: "replace_all ''.00'' [] ((CHR ''$'' # a) @ [CHR ''.'', d1, d2])
      = (CHR ''$'' # a) @ (if n mod 100 = 0 then [] else [CHR ''.'', d1, d2])" .
  have "money x = replace_all ''.00'' [] ((CHR ''$'' # a) @ [CHR ''.'', d1, d2])"
    by (simp add: money_def format_2f_def two_decimals_def n_def a_def d1_def d2_def
        del: replace_all.simps)
  also note r
  finally show ?thesis
    by (simp add: two_decimals_def n_def a_def d1_def d2_def)
qed

text \<open>
  C4, amended: for every captured digit string \<open>g\<close> whose value \<open>q\<close> is below \<open>2 ^ 52\<close>, the
  product with \<open>0.00001\<close> is defined, and the text substituted for \<open>g\<close> is \<open>$\<close> followed by
  \<open>q / 100000\<close> rounded to a nearest hundredth (\<open>cents\<close> hundredths, at most half a hundredth
  away from the exact quantity), printed with two decimals, or without the point and the
  decimals when both are zero; for \<open>q\<close> a multiple of 100000 it is \<open>$\<close> and the integer
  \<open>q / 100000\<close>, with no decimal portion.
\<close>

theorem amount_display:
  assumes "isdigit g" and "py_int g = Inr q" and "q < 2 ^ 52"
  shows "\<exists>x. times_00001 q = Inr x \<and>
           convert_groups (g # gs) line = convert_groups gs (replace_all g (money x) line) \<and>
           money x = ''$'' @ (if cents x mod 100 = 0 then str_nat (cents x div 100)
                              else two_decimals (cents x)) \<and>
           \<bar>1000 * int (cents x) - int q\<bar> \<le> 500 \<and>
           (100000 dvd q \<longrightarrow> money x = ''$'' @ str_nat (q div 100000))"
proof -
  obtain x where x: "times_00001 q = Inr x"
  proof (cases "q = 0")
    case True
    then have "times_00001 q = Inr (0, 0)"
      by (simp add: float_eval)
    then show ?thesis
      by (rule that)
  next
    case False
    then have "0 < q" by simp
    moreover from assms(3) have "q < 2 ^ 53" by simp
    ultimately show ?thesis
      using times_00001_small that by blast
  qed
  from cents_nearest [OF assms(3) x] have near: "\<bar>1000 * int (cents x) - int q\<bar> \<le> 500" .
  have lay: "money x = ''$'' @ (if cents x mod 100 = 0 then str_nat (cents x div 100)
                              else two_decimals (cents x))"
    by (rule money_layout)
  have "money x = ''$'' @ str_nat (q div 100000)" if "100000 dvd q"
  proof -
    from that obtain k where k: "q = 100000 * k"
      by (rule dvdE)
    with near have "\<bar>1000 * int (cents x) - 100000 * int k\<bar> \<le> 500"
      by simp
    then have "int (cents x) = 100 * int k"
      by arith
    then have c: "cents x = 100 * k"
      by linarith
    then have "cents x mod 100 = 0" "cents x div 100 = q div 100000"
      by (simp_all add: k)
    with lay show ?thesis
      by simp
  qed
  with x near lay assms(1,2) show ?thesis
    by simp
qed

text \<open>C4, amended, at 700000 (a multiple of 100000, whose float product is
  7.000000000000001) and at 1234567.\<close>

theorem amount_display_witness:
  "(\<exists>x. times_00001 700000 = Inr x \<and> cents x = 700 \<and> money x = ''$7'')
   \<and> (\<exists>x. times_00001 1234567 = Inr x \<and> cents x = 1235 \<and> money x = ''$12.35'')"
proof -
  have a: "isdigit ''700000''" "py_int ''700000'' = Inr 700000" "(700000::nat) < 2 ^ 52"
    by (simp_all add: string_eval)
  have b: "isdigit ''1234567''" "py_int ''1234567'' = Inr 1234567" "(1234567::nat) < 2 ^ 52"
    by (simp_all add: string_eval)
  have d: "(100000::nat) dvd 700000"
    by simp
  from amount_display [OF a, of "[]" "[]"] d obtain x where x: "times_00001 700000 = Inr x"
    "\<bar>1000 * int (cents x) - int 700000\<bar> \<le> 500" "money x = ''$'' @ str_nat (700000 div 100000)"
    by blast
  from x(2) have "cents x = 700"
    by arith
  with x have 1: "\<exists>x. times_00001 700000 = Inr x \<and> cents x = 700 \<and> money x = ''$7''"
    by (simp add: str_nat.simps digit_char_def)
  from amount_display [OF b, of "[]" "[]"] obtain y where y: "times_00001 1234567 = Inr y"
    "\<bar>1000 * int (cents y) - int 1234567\<bar> \<le> 500"
    "money y = ''$'' @ (if cents y mod 100 = 0 then str_nat (cents y div 100)
                              else two_decimals (cents y))"
    by blast
  from y(2) have "cents y = 1235"
    by arith
  with y have 2: "\<exists>x. times_00001 1234567 = Inr x \<and> cents x = 1235 \<and> money x = ''$12.35''"
    by (simp add: two_decimals_def str_nat.simps digit_char_def)
  from 1 2 show ?thesis
    by blast
qed

text \<open>
  C4, as stated, fails: 5512565337140500000 is a multiple of 100000, and the text substituted
  for it is \<open>$55125653371405.01\<close>; the double nearest to the quantity and the rounded product
  with \<open>0.00001\<close> are off by more than half a hundredth.
\<close>

theorem large_amount_counterexample:
  "100000 dvd (5512565337140500000::nat) \<and>
   map_sum id money (times_00001 5512565337140500000) = Inr ''$55125653371405.01'' \<and>
   convert (rules ! 2) '': bets 5512565337140500000'' = Inr '': bets $55125653371405.01''"
  by (simp add: hand_eval string_eval float_eval money_eval)

end
